theory Spec2Isabelle
  imports Complex_Main "HOL-Library.Monad_Syntax" "HOL-Library.AList" "HOL-Library.Multiset"
begin

section \<open>The random source\<close>

text \<open>
  Every \<^verbatim>\<open>Math.random()\<close> of \<^verbatim>\<open>server.js\<close> reads the next number of a list of
  draws. \<^verbatim>\<open>Math.random()\<close> returns a number in \<open>[0, 1)\<close>; a list that runs out, or
  whose next number is outside that range, describes no run of the program, and the
  function that asked for the draw returns \<open>None\<close>. The only loop of the program
  that may run forever (the retry loop of the birth step) asks for draws on every
  round, so a run that never ends also shows as \<open>None\<close> on every finite list.
  Numbers are modelled as reals: the rounding of IEEE doubles is left out.
\<close>

type_synonym rng = "real list"

definition random :: "rng \<Rightarrow> (real \<times> rng) option" where
  "random rs = (case rs of [] \<Rightarrow> None
     | r # rs' \<Rightarrow> if 0 \<le> r \<and> r < 1 then Some (r, rs') else None)"

text \<open>\<^verbatim>\<open>Math.floor(Math.random() * n)\<close> for the draw \<open>r\<close>.\<close>

definition randIndex :: "real \<Rightarrow> nat \<Rightarrow> nat" where
  "randIndex r n = nat \<lfloor>r * real n\<rfloor>"

section \<open>Phonology generator\<close>

definition CONSONANTS :: "string list" where
  "CONSONANTS = [''k'', ''n'', ''t'', ''s'', ''m'', ''r'', ''h'', ''p'', ''l'', ''w'', ''v'', ''z'']"

definition VOWELS :: "string list" where
  "VOWELS = [''a'', ''i'', ''u'', ''e'', ''o'']"

definition C_WEIGHTS :: "real list" where
  "C_WEIGHTS = [12, 15, 10, 8, 12, 8, 6, 5, 7, 4, 3, 2]"

definition V_WEIGHTS :: "real list" where
  "V_WEIGHTS = [20, 15, 10, 12, 8]"

text \<open>
  The \<^verbatim>\<open>for\<close> loop of \<^verbatim>\<open>weightedChoice\<close>: \<open>None\<close> when it ends without a
  \<^verbatim>\<open>return\<close>. A missing weight is \<^verbatim>\<open>undefined\<close>, the sum becomes \<^verbatim>\<open>NaN\<close> and no later
  comparison holds.
\<close>

fun weightedLoop :: "string list \<Rightarrow> real list \<Rightarrow> real \<Rightarrow> real \<Rightarrow> string option" where
  "weightedLoop [] ws r cum = None"
| "weightedLoop (x # xs) [] r cum = None"
| "weightedLoop (x # xs) (w # ws) r cum =
     (if r \<le> cum + w then Some x else weightedLoop xs ws r (cum + w))"

definition weightedChoice :: "string list \<Rightarrow> real list \<Rightarrow> rng \<Rightarrow> (string \<times> rng) option" where
  "weightedChoice items weights rs =
     do {
       (u, rs1) \<leftarrow> random rs;
       let r = u * sum_list weights;
       Some (case weightedLoop items weights r 0 of
               Some x \<Rightarrow> x
             | None \<Rightarrow> last items, rs1)
     }"

definition genSyllable :: "rng \<Rightarrow> (string \<times> rng) option" where
  "genSyllable rs =
     do {
       (u1, rs1) \<leftarrow> random rs;
       (onset, rs2) \<leftarrow> (if u1 > 0.2 then weightedChoice CONSONANTS C_WEIGHTS rs1
                          else Some ('''', rs1));
       (nucleus, rs3) \<leftarrow> weightedChoice VOWELS V_WEIGHTS rs2;
       (u2, rs4) \<leftarrow> random rs3;
       (coda, rs5) \<leftarrow> (if u2 > 0.7
                         then do {
                           (u3, rs5) \<leftarrow> random rs4;
                           Some ([''n'', ''m'', ''''] ! randIndex u3 3, rs5)
                         }
                         else Some ('''', rs4));
       Some (onset @ nucleus @ coda, rs5)
     }"

text \<open>\<^verbatim>\<open>Array.from({length: n}, () => genSyllable()).join('')\<close>.\<close>

fun genSyllables :: "nat \<Rightarrow> rng \<Rightarrow> (string \<times> rng) option" where
  "genSyllables 0 rs = Some ('''', rs)"
| "genSyllables (Suc n) rs =
     do {
       (s, rs1) \<leftarrow> genSyllable rs;
       (t, rs2) \<leftarrow> genSyllables n rs1;
       Some (s @ t, rs2)
     }"

text \<open>
  The syllable count of \<^verbatim>\<open>genWord\<close>: the loop over the weights 15, 50, 35 with its
  \<^verbatim>\<open>break\<close>, and the initial value 2 when no comparison holds.
\<close>

definition syllableCount :: "real \<Rightarrow> nat" where
  "syllableCount r = (if r \<le> 15 then 1 else if r \<le> 65 then 2 else if r \<le> 100 then 3 else 2)"

definition genWord :: "rng \<Rightarrow> (string \<times> rng) option" where
  "genWord rs =
     do {
       (u0, rs1) \<leftarrow> random rs;
       (u1, rs2) \<leftarrow> random rs1;
       genSyllables (syllableCount (u1 * 100)) rs2
     }"

section \<open>Concept catalog\<close>

definition CONCEPTS :: "(string \<times> string list) list" where
  "CONCEPTS =
    [(''natural'', [''water'', ''fire'', ''earth'', ''wind'', ''stone'', ''tree'', ''river'',
        ''mountain'', ''sun'', ''moon'', ''star'', ''rain'', ''snow'', ''flower'', ''seed'',
        ''sky'', ''ocean'', ''cloud'']),
     (''abstract'', [''time'', ''space'', ''change'', ''pattern'', ''boundary'', ''flow'',
        ''balance'', ''emergence'', ''connection'', ''threshold'', ''cycle'', ''wave'',
        ''order'', ''chaos'']),
     (''quality'', [''big'', ''small'', ''fast'', ''slow'', ''bright'', ''dark'', ''warm'',
        ''cold'', ''old'', ''new'', ''near'', ''far'', ''deep'', ''high'', ''soft'', ''hard'']),
     (''action'', [''move'', ''grow'', ''break'', ''join'', ''give'', ''take'', ''make'',
        ''find'', ''hold'', ''release'', ''begin'', ''end'', ''turn'', ''fall'', ''rise'',
        ''flow'']),
     (''relation'', [''with'', ''from'', ''toward'', ''through'', ''between'', ''within'',
        ''beyond'', ''around'']),
     (''being'', [''self'', ''other'', ''many'', ''one'', ''all'', ''none'', ''part'',
        ''whole''])]"

text \<open>
  The loop over \<^verbatim>\<open>Object.entries(CONCEPTS)\<close>: every concept is pushed to
  \<^verbatim>\<open>ALL_CONCEPTS\<close>, and \<^verbatim>\<open>CONCEPT_CATS[c] = cat\<close> keeps the last category assigned.
\<close>

definition ALL_CONCEPTS :: "string list" where
  "ALL_CONCEPTS = concat (map snd CONCEPTS)"

definition CONCEPT_CATS :: "string \<Rightarrow> string option" where
  "CONCEPT_CATS = map_of (rev (concat (map (\<lambda>(cat, cs). map (\<lambda>c. (c, cat)) cs) CONCEPTS)))"

section \<open>Lexicon state\<close>

record word_data =
  meaning :: string
  category :: "string option"
  born :: int
  uses :: int
  fitness :: real
  history :: "string list"

record compound_data =
  parts :: "string list"
  meanings :: "string list"
  compound_meaning :: string
  compound_born :: int

record extinct_record =
  extinct_word :: string
  extinct_meaning :: string
  extinct_born :: int
  died :: int
  extinct_uses :: int

record shift_record =
  shift_gen :: int
  shift_from :: string
  shift_to :: string
  shift_meaning :: string

text \<open>The event objects, by their \<^verbatim>\<open>type\<close>; the fields in the order of the source.\<close>

datatype event =
    Birth int string string "string option"
  | Extinct int string string
  | Shift int string string string
  | Compound int string string "string list"

record stats_data =
  total_generated :: "int option"
  total_extinct :: "int option"
  total_compounds :: "int option"
  total_shifts :: "int option"

text \<open>
  The state object. A field that a snapshot or the Pi may leave out is an option
  (\<open>None\<close> is \<^verbatim>\<open>undefined\<close>). An object used as a dictionary is an association list
  in the order of \<^verbatim>\<open>Object.keys\<close>: the order of insertion, for keys that are not
  array indices (no generated form is one). An archived event is the event with its
  \<^verbatim>\<open>time\<close>.
\<close>

record state =
  words :: "(string \<times> word_data) list option"
  compounds :: "(string \<times> compound_data) list option"
  generation :: "int option"
  extinct :: "extinct_record list option"
  sound_shifts :: "shift_record list option"
  events :: "(event \<times> string) list option"
  stats :: "stats_data option"
  piConnected :: "bool option"
  lastPiSync :: "string option"

text \<open>\<^verbatim>\<open>x || []\<close>, \<^verbatim>\<open>x || {}\<close> and \<^verbatim>\<open>x || 0\<close>.\<close>

definition orEmpty :: "'a list option \<Rightarrow> 'a list" where
  "orEmpty x = (case x of None \<Rightarrow> [] | Some xs \<Rightarrow> xs)"

definition orZero :: "int option \<Rightarrow> int" where
  "orZero x = (case x of None \<Rightarrow> 0 | Some n \<Rightarrow> n)"

definition zeroStats :: stats_data where
  "zeroStats = \<lparr>total_generated = Some 0, total_extinct = Some 0,
                 total_compounds = Some 0, total_shifts = Some 0\<rparr>"

definition orStats :: "stats_data option \<Rightarrow> stats_data" where
  "orStats x = (case x of None \<Rightarrow> zeroStats | Some s \<Rightarrow> s)"

text \<open>\<^verbatim>\<open>xs.slice(-n)\<close>: the last \<open>n\<close> elements.\<close>

definition lastN :: "nat \<Rightarrow> 'a list \<Rightarrow> 'a list" where
  "lastN n xs = drop (length xs - n) xs"

section \<open>Evolution engine\<close>

text \<open>The first lines of \<^verbatim>\<open>evolveStep\<close>: every missing field gets its default.\<close>

definition ensureStats :: "stats_data \<Rightarrow> stats_data" where
  "ensureStats s =
     \<lparr>total_generated = Some (orZero (total_generated s)),
      total_extinct = Some (orZero (total_extinct s)),
      total_compounds = Some (orZero (total_compounds s)),
      total_shifts = Some (orZero (total_shifts s))\<rparr>"

definition ensureFields :: "state \<Rightarrow> state" where
  "ensureFields st =
     st\<lparr>words := Some (orEmpty (words st)),
        compounds := Some (orEmpty (compounds st)),
        extinct := Some (orEmpty (extinct st)),
        sound_shifts := Some (orEmpty (sound_shifts st)),
        events := Some (orEmpty (events st)),
        stats := Some (ensureStats (orStats (stats st)))\<rparr>"

text \<open>
  \<^verbatim>\<open>let word = genWord(); while (state.words[word]) word = genWord();\<close> Every round
  reads at least two draws, so the loop ends on a finite list of draws: with a new
  form, or with \<open>None\<close> when the draws are used up.
\<close>

function freshWord :: "(string \<times> word_data) list \<Rightarrow> rng \<Rightarrow> (string \<times> rng) option" where
  "freshWord ws rs =
     (case genWord rs of
        None \<Rightarrow> None
      | Some (word, rs1) \<Rightarrow>
          if map_of ws word \<noteq> None then freshWord ws rs1 else Some (word, rs1))"
  by pat_completeness auto
termination
proof (relation "measure (\<lambda>(ws, rs). length rs)")
  show "wf (measure (\<lambda>(ws :: (string \<times> word_data) list, rs :: rng). length rs))"
    by simp
next
  fix ws :: "(string \<times> word_data) list" and rs :: rng and x2 word rs1
  assume g: "genWord rs = Some x2" and x: "(word, rs1) = x2"
  have rand: "\<And>a v b. random a = Some (v, b) \<Longrightarrow> length b < length a"
    by (auto simp: random_def split: list.splits if_splits)
  have wc: "\<And>i w a v b. weightedChoice i w a = Some (v, b) \<Longrightarrow> length b < length a"
    by (auto simp: weightedChoice_def Let_def split: Option.bind_splits dest: rand)
  have syl: "\<And>a v b. genSyllable a = Some (v, b) \<Longrightarrow> length b < length a"
    by (fastforce simp: genSyllable_def split: Option.bind_splits if_splits dest: rand wc)
  have syls: "\<And>n a v b. genSyllables n a = Some (v, b) \<Longrightarrow> length b \<le> length a"
  proof -
    fix n a v b
    show "genSyllables n a = Some (v, b) \<Longrightarrow> length b \<le> length a"
    proof (induction n arbitrary: a v)
      case 0
      then show ?case by simp
    next
      case (Suc n)
      then show ?case
        by (fastforce split: Option.bind_splits dest: syl)
    qed
  qed
  from g x have "length rs1 < length rs"
    by (fastforce simp: genWord_def split: Option.bind_splits dest: rand syls)
  then show "((ws, rs1), (ws, rs)) \<in> measure (\<lambda>(ws, rs). length rs)"
    by simp
qed

text \<open>\<^verbatim>\<open>state.stats.total_generated++\<close> and its three siblings.\<close>

definition incGenerated :: "state \<Rightarrow> state" where
  "incGenerated st =
     (let s = orStats (stats st)
      in st\<lparr>stats := Some (s\<lparr>total_generated := Some (orZero (total_generated s) + 1)\<rparr>)\<rparr>)"

definition incExtinct :: "state \<Rightarrow> state" where
  "incExtinct st =
     (let s = orStats (stats st)
      in st\<lparr>stats := Some (s\<lparr>total_extinct := Some (orZero (total_extinct s) + 1)\<rparr>)\<rparr>)"

definition incCompounds :: "state \<Rightarrow> state" where
  "incCompounds st =
     (let s = orStats (stats st)
      in st\<lparr>stats := Some (s\<lparr>total_compounds := Some (orZero (total_compounds s) + 1)\<rparr>)\<rparr>)"

definition incShifts :: "state \<Rightarrow> state" where
  "incShifts st =
     (let s = orStats (stats st)
      in st\<lparr>stats := Some (s\<lparr>total_shifts := Some (orZero (total_shifts s) + 1)\<rparr>)\<rparr>)"

subsection \<open>1. Birth\<close>

text \<open>
  The concept of the newborn, for the draw \<open>v\<close>: one that no living word means if
  there is one, else any concept.
\<close>

definition pickConcept :: "(string \<times> word_data) list \<Rightarrow> real \<Rightarrow> string" where
  "pickConcept ws v =
     (let covered = map (\<lambda>(k, d). meaning d) ws;
          uncovered = filter (\<lambda>c. c \<notin> set covered) ALL_CONCEPTS
      in if length uncovered > 0
         then uncovered ! randIndex v (length uncovered)
         else ALL_CONCEPTS ! randIndex v (length ALL_CONCEPTS))"

definition newborn :: "int \<Rightarrow> string \<Rightarrow> string \<Rightarrow> word_data" where
  "newborn gen concept word =
     \<lparr>meaning = concept, category = CONCEPT_CATS concept, born = gen,
      uses = 0, fitness = 0.5, history = [word]\<rparr>"

definition birthStep :: "int \<Rightarrow> state \<Rightarrow> event list \<Rightarrow> rng \<Rightarrow> (state \<times> event list \<times> rng) option" where
  "birthStep gen st evs rs =
     do {
       (u, rs1) \<leftarrow> random rs;
       if u < 0.7 then
         do {
           (v, rs2) \<leftarrow> random rs1;
           let concept = pickConcept (orEmpty (words st)) v;
           (word, rs3) \<leftarrow> freshWord (orEmpty (words st)) rs2;
           let st1 = st\<lparr>words := Some (AList.update word (newborn gen concept word)
                                          (orEmpty (words st)))\<rparr>;
           Some (incGenerated st1,
                 evs @ [Birth gen word concept (CONCEPT_CATS concept)], rs3)
         }
       else Some (st, evs, rs1)
     }"

subsection \<open>2. Usage\<close>

text \<open>
  \<^verbatim>\<open>[...words].sort(() => Math.random() - 0.5)\<close>: with a comparator that is no order,
  the result of \<^verbatim>\<open>sort\<close> and the number of calls of the comparator are left to the
  JavaScript engine. The engine's sort is a parameter: from the keys and the draws it
  gives the sorted keys and the draws left. Every engine returns a rearrangement of
  the keys; an answer that is none describes no run.
\<close>

type_synonym sorter = "string list \<Rightarrow> rng \<Rightarrow> (string list \<times> rng) option"

definition useWord :: "string \<Rightarrow> (string \<times> word_data) list \<Rightarrow> (string \<times> word_data) list" where
  "useWord k ws =
     AList.map_entry k (\<lambda>d. d\<lparr>uses := uses d + 1, fitness := min 2 (fitness d + 0.1)\<rparr>) ws"

definition usageStep :: "sorter \<Rightarrow> state \<Rightarrow> rng \<Rightarrow> (state \<times> rng) option" where
  "usageStep srt st rs =
     do {
       let ks = map fst (orEmpty (words st));
       let usedCount = max 1 (length ks div 3);
       (shuffled, rs1) \<leftarrow> srt ks rs;
       if mset shuffled = mset ks
       then Some (st\<lparr>words := Some (foldl (\<lambda>ws k. useWord k ws) (orEmpty (words st))
                                       (take (min usedCount (length shuffled)) shuffled))\<rparr>, rs1)
       else None
     }"

subsection \<open>3. Decay\<close>

definition decayWord :: "int \<Rightarrow> word_data \<Rightarrow> word_data" where
  "decayWord gen d =
     (let age = gen - born d
      in if age > 0
         then (let d1 = d\<lparr>fitness := fitness d - 0.05\<rparr>
               in if uses d1 = 0 \<and> age > 3 then d1\<lparr>fitness := fitness d1 - 0.2\<rparr> else d1)
         else d)"

definition decayStep :: "int \<Rightarrow> state \<Rightarrow> state" where
  "decayStep gen st =
     st\<lparr>words := Some (map (\<lambda>(k, d). (k, decayWord gen d)) (orEmpty (words st)))\<rparr>"

subsection \<open>4. Extinction\<close>

text \<open>One round of the loop over \<^verbatim>\<open>Object.keys(state.words)\<close>, for the key \<open>w\<close>.\<close>

definition extinctWord :: "int \<Rightarrow> string \<Rightarrow> state \<times> event list \<Rightarrow> state \<times> event list" where
  "extinctWord gen w = (\<lambda>(st, evs).
     case map_of (orEmpty (words st)) w of
       None \<Rightarrow> (st, evs)
     | Some d \<Rightarrow>
         if fitness d \<le> 0
         then (let ex = orEmpty (extinct st) @
                          [\<lparr>extinct_word = w, extinct_meaning = meaning d,
                            extinct_born = born d, died = gen, extinct_uses = uses d\<rparr>];
                   ex1 = (if length ex > 50 then lastN 50 ex else ex);
                   st1 = incExtinct (st\<lparr>extinct := Some ex1\<rparr>)
               in (st1\<lparr>words := Some (AList.delete w (orEmpty (words st1)))\<rparr>,
                   evs @ [Extinct gen w (meaning d)]))
         else (st, evs))"

definition extinctionStep :: "int \<Rightarrow> state \<Rightarrow> event list \<Rightarrow> state \<times> event list" where
  "extinctionStep gen st evs =
     foldl (\<lambda>acc w. extinctWord gen w acc) (st, evs) (map fst (orEmpty (words st)))"

subsection \<open>5. Sound shift\<close>

definition SOUND_SHIFTS :: "char \<Rightarrow> string list option" where
  "SOUND_SHIFTS =
     map_of [(CHR ''k'', [''g'', ''h'']), (CHR ''t'', [''d'', ''s'']), (CHR ''p'', [''b'', ''f'']),
             (CHR ''s'', [''z'', ''sh'']), (CHR ''h'', ['''', ''w'']), (CHR ''n'', [''m'', ''ng'']),
             (CHR ''r'', [''l'', ''''])]"

text \<open>
  The loop over the characters of the target: the pieces of \<^verbatim>\<open>result\<close>, whether a
  piece was replaced, and the draws left. A draw is read only for a character that
  has shift options.
\<close>

fun shiftChars :: "string \<Rightarrow> rng \<Rightarrow> (string list \<times> bool \<times> rng) option" where
  "shiftChars [] rs = Some ([], False, rs)"
| "shiftChars (c # cs) rs =
     (case SOUND_SHIFTS c of
        None \<Rightarrow>
          do {
            (res, shifted, rs1) \<leftarrow> shiftChars cs rs;
            Some ([c] # res, shifted, rs1)
          }
      | Some opts \<Rightarrow>
          do {
            (u, rs1) \<leftarrow> random rs;
            if u < 0.15
            then do {
              (v, rs2) \<leftarrow> random rs1;
              (res, shifted, rs3) \<leftarrow> shiftChars cs rs2;
              Some (opts ! randIndex v (length opts) # res, True, rs3)
            }
            else do {
              (res, shifted, rs3) \<leftarrow> shiftChars cs rs1;
              Some ([c] # res, shifted, rs3)
            }
          })"

definition shiftStep :: "int \<Rightarrow> state \<Rightarrow> event list \<Rightarrow> rng \<Rightarrow> (state \<times> event list \<times> rng) option" where
  "shiftStep gen st evs rs =
     do {
       (u, rs1) \<leftarrow> random rs;
       let ks = map fst (orEmpty (words st));
       if u < 0.1 \<and> length ks > 0
       then do {
         (v, rs2) \<leftarrow> random rs1;
         let target = ks ! randIndex v (length ks);
         (result, shifted, rs3) \<leftarrow> shiftChars target rs2;
         let newForm = concat result;
         if shifted \<and> newForm \<noteq> target \<and> map_of (orEmpty (words st)) newForm = None
         then do {
           data \<leftarrow> map_of (orEmpty (words st)) target;
           let data1 = data\<lparr>history := history data @ [newForm]\<rparr>;
           let st1 = st\<lparr>words := Some (AList.update newForm data1
                                          (AList.delete target (orEmpty (words st))))\<rparr>;
           let st2 = incShifts st1;
           let sh = orEmpty (sound_shifts st2) @
                      [\<lparr>shift_gen = gen, shift_from = target, shift_to = newForm,
                        shift_meaning = meaning data1\<rparr>];
           let sh1 = (if length sh > 30 then lastN 30 sh else sh);
           Some (st2\<lparr>sound_shifts := Some sh1\<rparr>,
                 evs @ [Shift gen target newForm (meaning data1)], rs3)
         }
         else Some (st, evs, rs3)
       }
       else Some (st, evs, rs1)
     }"

subsection \<open>6. Compound\<close>

definition compoundStep :: "int \<Rightarrow> state \<Rightarrow> event list \<Rightarrow> rng \<Rightarrow> (state \<times> event list \<times> rng) option" where
  "compoundStep gen st evs rs =
     do {
       (u, rs1) \<leftarrow> random rs;
       let ks = map fst (orEmpty (words st));
       if u < 0.15 \<and> length ks \<ge> 4
       then do {
         (v1, rs2) \<leftarrow> random rs1;
         (v2, rs3) \<leftarrow> random rs2;
         let w1 = ks ! randIndex v1 (length ks);
         let w2 = ks ! randIndex v2 (length ks);
         if w1 \<noteq> w2
         then do {
           let compound = take (max 2 (length w1 div 2)) w1 @ drop (length w2 div 2) w2;
           d1 \<leftarrow> map_of (orEmpty (words st)) w1;
           d2 \<leftarrow> map_of (orEmpty (words st)) w2;
           let cmeaning = meaning d1 @ ''-'' @ meaning d2;
           if map_of (orEmpty (words st)) compound = None
              \<and> map_of (orEmpty (compounds st)) compound = None
           then do {
             let c = \<lparr>parts = [w1, w2], meanings = [meaning d1, meaning d2],
                      compound_meaning = cmeaning, compound_born = gen\<rparr>;
             let st1 = st\<lparr>compounds := Some (AList.update compound c (orEmpty (compounds st)))\<rparr>;
             Some (incCompounds st1, evs @ [Compound gen compound cmeaning [w1, w2]], rs3)
           }
           else Some (st, evs, rs3)
         }
         else Some (st, evs, rs3)
       }
       else Some (st, evs, rs1)
     }"

subsection \<open>Storing the events\<close>

text \<open>
  \<^verbatim>\<open>new Date().toISOString()\<close> is read once for every event of the call: \<open>now i\<close> is
  the reading for the event at position \<open>i\<close>.
\<close>

type_synonym clock = "nat \<Rightarrow> string"

definition storeEvents :: "clock \<Rightarrow> event list \<Rightarrow> state \<Rightarrow> state" where
  "storeEvents now evs st =
     (let log = orEmpty (events st) @ map (\<lambda>(i, e). (e, now i)) (enumerate 0 evs)
      in st\<lparr>events := Some (if length log > 200 then lastN 200 log else log)\<rparr>)"

subsection \<open>One generation\<close>

definition evolveStep :: "sorter \<Rightarrow> clock \<Rightarrow> state \<Rightarrow> rng \<Rightarrow> (event list \<times> state \<times> rng) option" where
  "evolveStep srt now st rs =
     do {
       let st0 = ensureFields st;
       let gen = orZero (generation st0) + 1;
       let st1 = st0\<lparr>generation := Some gen\<rparr>;
       (st2, evs2, rs2) \<leftarrow> birthStep gen st1 [] rs;
       (st3, rs3) \<leftarrow> usageStep srt st2 rs2;
       let st4 = decayStep gen st3;
       let (st5, evs5) = extinctionStep gen st4 evs2;
       (st6, evs6, rs6) \<leftarrow> shiftStep gen st5 evs5 rs3;
       (st7, evs7, rs7) \<leftarrow> compoundStep gen st6 evs6 rs6;
       Some (evs7, storeEvents now evs7 st7, rs7)
     }"

subsection \<open>A sorter\<close>

text \<open>
  One engine's sort, to run the model on concrete inputs: insertion sort, with one call
  of the comparator \<^verbatim>\<open>() => Math.random() - 0.5\<close> (one draw) for every comparison; a
  negative result puts the new element first.
\<close>

fun insertRandom :: "string \<Rightarrow> string list \<Rightarrow> rng \<Rightarrow> (string list \<times> rng) option" where
  "insertRandom x [] rs = Some ([x], rs)"
| "insertRandom x (y # ys) rs =
     do {
       (u, rs1) \<leftarrow> random rs;
       if u - 0.5 < 0 then Some (x # y # ys, rs1)
       else do {
         (zs, rs2) \<leftarrow> insertRandom x ys rs1;
         Some (y # zs, rs2)
       }
     }"

fun insertionSorter :: sorter where
  "insertionSorter [] rs = Some ([], rs)"
| "insertionSorter (x # xs) rs =
     do {
       (ys, rs1) \<leftarrow> insertionSorter xs rs;
       insertRandom x ys rs1
     }"

section \<open>Startup: snapshot or seed\<close>

definition emptyState :: state where
  "emptyState =
     \<lparr>words = Some [], compounds = Some [], generation = Some 0, extinct = Some [],
      sound_shifts = Some [], events = Some [], stats = Some zeroStats,
      piConnected = None, lastPiSync = None\<rparr>"

text \<open>The loop that pushes \<open>n\<close> random concepts to \<^verbatim>\<open>initial\<close>.\<close>

fun drawConcepts :: "nat \<Rightarrow> rng \<Rightarrow> (string list \<times> rng) option" where
  "drawConcepts 0 rs = Some ([], rs)"
| "drawConcepts (Suc n) rs =
     do {
       (u, rs1) \<leftarrow> random rs;
       (cs, rs2) \<leftarrow> drawConcepts n rs1;
       Some (ALL_CONCEPTS ! randIndex u (length ALL_CONCEPTS) # cs, rs2)
     }"

text \<open>\<^verbatim>\<open>[...new Set(initial)]\<close>: the first occurrence of every element, in order.\<close>

definition uniqueFirst :: "string list \<Rightarrow> string list" where
  "uniqueFirst xs = rev (remdups (rev xs))"

text \<open>
  The seed loop: \<^verbatim>\<open>state.words[word] = {...}\<close> for a generated word, with no check
  that the form is new.
\<close>

fun seedWords :: "string list \<Rightarrow> (string \<times> word_data) list \<Rightarrow> rng \<Rightarrow> ((string \<times> word_data) list \<times> rng) option" where
  "seedWords [] ws rs = Some (ws, rs)"
| "seedWords (concept # cs) ws rs =
     do {
       (word, rs1) \<leftarrow> genWord rs;
       let d = \<lparr>meaning = concept, category = CONCEPT_CATS concept, born = 0,
                uses = 1, fitness = 1.0, history = [word]\<rparr>;
       seedWords cs (AList.update word d ws) rs1
     }"

text \<open>
  The top-level statements that build \<^verbatim>\<open>state\<close>: the snapshot if there is one, else
  the empty state; the seed when there are no words; the default of \<^verbatim>\<open>events\<close>. The
  seed assigns to \<^verbatim>\<open>state.words[word]\<close> and to \<^verbatim>\<open>state.stats.total_generated\<close>: on a
  snapshot without \<^verbatim>\<open>words\<close> or without \<^verbatim>\<open>stats\<close> that is a TypeError and the module
  does not load (\<open>None\<close>).
\<close>

definition seedState :: "state \<Rightarrow> rng \<Rightarrow> (state \<times> rng) option" where
  "seedState st rs =
     do {
       (initial, rs1) \<leftarrow> drawConcepts 10 rs;
       let unique = take 10 (uniqueFirst initial);
       ws0 \<leftarrow> words st;
       (ws, rs2) \<leftarrow> seedWords unique ws0 rs1;
       s \<leftarrow> stats st;
       Some (st\<lparr>words := Some ws,
                stats := Some (s\<lparr>total_generated := Some (int (length ws))\<rparr>)\<rparr>, rs2)
     }"

definition initState :: "state option \<Rightarrow> rng \<Rightarrow> (state \<times> rng) option" where
  "initState lexiconSnapshot rs =
     do {
       let st = (case lexiconSnapshot of None \<Rightarrow> emptyState | Some s \<Rightarrow> s);
       (st1, rs1) \<leftarrow> (if words st = None \<or> length (orEmpty (words st)) = 0
                        then seedState st rs else Some (st, rs));
       Some (if events st1 = None then st1\<lparr>events := Some []\<rparr> else st1, rs1)
     }"

section \<open>Sentence generator\<close>

definition catOrder0 :: "string list" where
  "catOrder0 = [''being'', ''quality'', ''action'', ''natural'', ''relation'', ''abstract'']"

text \<open>
  \<^verbatim>\<open>const w = words[Math.floor(Math.random()*words.length)]; sentWords.push([w, state.words[w]])\<close>
\<close>

definition anyWord :: "(string \<times> word_data) list \<Rightarrow> rng \<Rightarrow> ((string \<times> word_data) \<times> rng) option" where
  "anyWord ws rs =
     do {
       (v, rs1) \<leftarrow> random rs;
       let w = map fst ws ! randIndex v (length ws);
       d \<leftarrow> map_of ws w;
       Some ((w, d), rs1)
     }"

text \<open>
  One round of the loop of \<^verbatim>\<open>generateSentence\<close>: the pair pushed to \<^verbatim>\<open>sentWords\<close>,
  \<^verbatim>\<open>catOrder\<close> after the round, and the draws left. \<^verbatim>\<open>catOrder.shift()\<close> removes the
  first category as soon as the branch is entered.
\<close>

definition sentenceWord :: "(string \<times> word_data) list \<Rightarrow> string list \<Rightarrow> rng \<Rightarrow> ((string \<times> word_data) \<times> string list \<times> rng) option" where
  "sentenceWord ws catOrder rs =
     (if length catOrder > 0
      then do {
        (u, rs1) \<leftarrow> random rs;
        if u > 0.3
        then (let cat = hd catOrder;
                  catOrder1 = tl catOrder;
                  candidates = filter (\<lambda>(k, d). category d = Some cat) ws
              in if length candidates > 0
                 then do {
                   (v, rs2) \<leftarrow> random rs1;
                   Some (candidates ! randIndex v (length candidates), catOrder1, rs2)
                 }
                 else do {
                   (e, rs2) \<leftarrow> anyWord ws rs1;
                   Some (e, catOrder1, rs2)
                 })
        else do {
          (e, rs2) \<leftarrow> anyWord ws rs1;
          Some (e, catOrder, rs2)
        }
      }
      else do {
        (e, rs1) \<leftarrow> anyWord ws rs;
        Some (e, catOrder, rs1)
      })"

fun sentenceLoop :: "nat \<Rightarrow> (string \<times> word_data) list \<Rightarrow> string list \<Rightarrow> rng \<Rightarrow> ((string \<times> word_data) list \<times> string list \<times> rng) option" where
  "sentenceLoop 0 ws catOrder rs = Some ([], catOrder, rs)"
| "sentenceLoop (Suc n) ws catOrder rs =
     do {
       (e, catOrder1, rs1) \<leftarrow> sentenceWord ws catOrder rs;
       (es, catOrder2, rs2) \<leftarrow> sentenceLoop n ws catOrder1 rs1;
       Some (e # es, catOrder2, rs2)
     }"

text \<open>\<^verbatim>\<open>xs.join(' ')\<close>.\<close>

fun joinSpace :: "string list \<Rightarrow> string" where
  "joinSpace [] = ''''"
| "joinSpace [x] = x"
| "joinSpace (x # y # ys) = x @ '' '' @ joinSpace (y # ys)"

record sentence =
  sentence_text :: string
  gloss :: string
  sentence_words :: "(string \<times> string \<times> string option) list"

definition generateSentence :: "state \<Rightarrow> rng \<Rightarrow> (sentence \<times> rng) option" where
  "generateSentence st rs =
     (let ws = orEmpty (words st)
      in if length ws = 0
         then Some (\<lparr>sentence_text = ''(silence)'', gloss = ''(empty lexicon)'',
                     sentence_words = []\<rparr>, rs)
         else do {
           (u, rs1) \<leftarrow> random rs;
           let len = 3 + randIndex u 5;
           (sentWords, catOrder, rs2) \<leftarrow> sentenceLoop len ws catOrder0 rs1;
           Some (\<lparr>sentence_text = joinSpace (map (\<lambda>(w, d). w) sentWords),
                   gloss = joinSpace (map (\<lambda>(w, d). meaning d) sentWords),
                   sentence_words = map (\<lambda>(w, d). (w, meaning d, category d)) sentWords\<rparr>, rs2)
         })"

section \<open>Synchronizer\<close>

text \<open>
  What \<^verbatim>\<open>syncFromPi\<close> gets from the Pi. \<open>Failed\<close>: \<^verbatim>\<open>fetch\<close> rejects (the Pi is not
  reachable, or the timer aborts the request after 3000 ms), or \<^verbatim>\<open>res.json()\<close> rejects,
  or the body is \<^verbatim>\<open>null\<close>: an exception before the first assignment. \<open>NotOk\<close>: a
  response whose \<^verbatim>\<open>ok\<close> is false. \<open>Body p\<close>: the parsed state object.
\<close>

datatype response = Failed | NotOk | Body state

text \<open>
  \<^verbatim>\<open>syncFromPi\<close>: the value returned and the state after. \<open>now\<close> is the reading of the
  clock for \<^verbatim>\<open>lastPiSync\<close>. The \<^verbatim>\<open>console.log\<close> after the merge reads
  \<^verbatim>\<open>Object.keys(piState.words)\<close>: without \<^verbatim>\<open>words\<close> it throws, and the \<^verbatim>\<open>catch\<close> clears
  \<^verbatim>\<open>piConnected\<close> on the merged state.
\<close>

definition syncFromPi :: "string \<Rightarrow> response \<Rightarrow> state \<Rightarrow> bool \<times> state" where
  "syncFromPi now res st =
     (case res of
        Failed \<Rightarrow> (False, st\<lparr>piConnected := Some False\<rparr>)
      | NotOk \<Rightarrow> (False, st)
      | Body piState \<Rightarrow>
          (let ourEvents = orEmpty (events st);
               ourExtinct = (case extinct st of Some e \<Rightarrow> e | None \<Rightarrow> orEmpty (extinct piState));
               ourShifts = (case sound_shifts st of Some s \<Rightarrow> s
                            | None \<Rightarrow> orEmpty (sound_shifts piState));
               ourStats = (case stats piState of Some s \<Rightarrow> s
                           | None \<Rightarrow> (case stats st of Some s \<Rightarrow> s
                              | None \<Rightarrow> \<lparr>total_generated = None, total_extinct = None,
                                          total_compounds = None, total_shifts = None\<rparr>));
               st1 = st\<lparr>words := Some (orEmpty (words piState)),
                        compounds := Some (orEmpty (compounds piState)),
                        generation := Some (orZero (generation piState)),
                        extinct := Some (case extinct piState of
                                           Some pe \<Rightarrow> if length pe > length ourExtinct then pe
                                                      else ourExtinct
                                         | None \<Rightarrow> ourExtinct),
                        sound_shifts := Some (case sound_shifts piState of
                                                Some ps \<Rightarrow> if length ps > length ourShifts then ps
                                                           else ourShifts
                                              | None \<Rightarrow> ourShifts),
                        stats := Some ourStats,
                        events := Some ourEvents,
                        piConnected := Some True,
                        lastPiSync := Some now\<rparr>
           in case words piState of
                None \<Rightarrow> (False, st1\<lparr>piConnected := Some False\<rparr>)
              | Some pw \<Rightarrow> (True, st1)))"

section \<open>Runs and readings of the state\<close>

text \<open>
  A sequence of calls of \<^verbatim>\<open>evolveStep\<close>, one for every clock of the list; the draws
  left by a call are the draws of the next. The result holds the events returned by
  every call.
\<close>

fun evolveRun :: "sorter \<Rightarrow> clock list \<Rightarrow> state \<Rightarrow> rng \<Rightarrow> (event list list \<times> state \<times> rng) option" where
  "evolveRun srt [] st rs = Some ([], st, rs)"
| "evolveRun srt (now # nows) st rs =
     do {
       (evs, st1, rs1) \<leftarrow> evolveStep srt now st rs;
       (evss, st2, rs2) \<leftarrow> evolveRun srt nows st1 rs1;
       Some (evs # evss, st2, rs2)
     }"

text \<open>The four counters of \<^verbatim>\<open>state.stats\<close>, a missing one read as 0.\<close>

definition totalGenerated :: "state \<Rightarrow> int" where
  "totalGenerated st = orZero (total_generated (orStats (stats st)))"

definition totalExtinct :: "state \<Rightarrow> int" where
  "totalExtinct st = orZero (total_extinct (orStats (stats st)))"

definition totalCompounds :: "state \<Rightarrow> int" where
  "totalCompounds st = orZero (total_compounds (orStats (stats st)))"

definition totalShifts :: "state \<Rightarrow> int" where
  "totalShifts st = orZero (total_shifts (orStats (stats st)))"

text \<open>The keys of the living words and of the compounds.\<close>

definition wordKeys :: "state \<Rightarrow> string list" where
  "wordKeys st = map fst (orEmpty (words st))"

definition compoundKeys :: "state \<Rightarrow> string list" where
  "compoundKeys st = map fst (orEmpty (compounds st))"

text \<open>The state with the \<^verbatim>\<open>time\<close> of every archived event blanked.\<close>

definition withoutTimes :: "state \<Rightarrow> state" where
  "withoutTimes st = st\<lparr>events := map_option (map (\<lambda>(e, t). (e, ''''))) (events st)\<rparr>"

text \<open>The extinct record and the event that the extinction step writes for an entry.\<close>

definition extinctRecord :: "int \<Rightarrow> string \<times> word_data \<Rightarrow> extinct_record" where
  "extinctRecord gen = (\<lambda>(w, d).
     \<lparr>extinct_word = w, extinct_meaning = meaning d, extinct_born = born d, died = gen,
      extinct_uses = uses d\<rparr>)"

definition extinctEvent :: "int \<Rightarrow> string \<times> word_data \<Rightarrow> event" where
  "extinctEvent gen = (\<lambda>(w, d). Extinct gen w (meaning d))"

definition isDead :: "string \<times> word_data \<Rightarrow> bool" where
  "isDead = (\<lambda>(w, d). fitness d \<le> 0)"

text \<open>No counter of the second state is below the one of the first.\<close>

definition countersLe :: "state \<Rightarrow> state \<Rightarrow> bool" where
  "countersLe st st1 \<longleftrightarrow>
     totalGenerated st \<le> totalGenerated st1 \<and> totalExtinct st \<le> totalExtinct st1
     \<and> totalCompounds st \<le> totalCompounds st1 \<and> totalShifts st \<le> totalShifts st1"

text \<open>An event of the type extinct.\<close>

fun isExtinctEvent :: "event \<Rightarrow> bool" where
  "isExtinctEvent (Extinct gen w m) = True"
| "isExtinctEvent e = False"

text \<open>An event of the type shift.\<close>

fun isShiftEvent :: "event \<Rightarrow> bool" where
  "isShiftEvent (Shift gen f t m) = True"
| "isShiftEvent e = False"

section \<open>Concrete inputs\<close>

text \<open>A lexicon of one word, of the category natural.\<close>

definition kaData :: word_data where
  "kaData = \<lparr>meaning = ''water'', category = Some ''natural'', born = 4, uses = 0,
             fitness = 0.05, history = [''ka'']\<rparr>"

definition kaWords :: "(string \<times> word_data) list" where
  "kaWords = [(''ka'', kaData)]"

text \<open>A state of the Pi: two words, one extinct record, its own counters.\<close>

definition piExample :: state where
  "piExample =
     \<lparr>words = Some [(''ti'', \<lparr>meaning = ''fire'', category = Some ''natural'', born = 2, uses = 3,
                               fitness = 1.2, history = [''ti'']\<rparr>),
                     (''nu'', \<lparr>meaning = ''moon'', category = Some ''natural'', born = 7, uses = 0,
                               fitness = 0.4, history = [''nu'']\<rparr>)],
      compounds = Some [],
      generation = Some 9,
      extinct = Some [\<lparr>extinct_word = ''mo'', extinct_meaning = ''sun'', extinct_born = 1,
                       died = 8, extinct_uses = 0\<rparr>],
      sound_shifts = None,
      events = Some [(Birth 7 ''nu'' ''moon'' (Some ''natural''), ''2026-01-01T00:00:00.000Z'')],
      stats = Some \<lparr>total_generated = Some 3, total_extinct = Some 1,
                    total_compounds = Some 0, total_shifts = Some 0\<rparr>,
      piConnected = None,
      lastPiSync = None\<rparr>"

text \<open>The local state: the lexicon of one word, at generation 5, with one archived event.\<close>

definition kaState :: state where
  "kaState =
     \<lparr>words = Some kaWords, compounds = Some [], generation = Some 5, extinct = Some [],
      sound_shifts = Some [], events = Some [(Birth 4 ''ka'' ''water'' (Some ''natural''), ''t0'')],
      stats = Some \<lparr>total_generated = Some 1, total_extinct = Some 0,
                    total_compounds = Some 0, total_shifts = Some 0\<rparr>,
      piConnected = None, lastPiSync = None\<rparr>"

text \<open>
  Draws for a fresh start: the ten concept draws give water once and cycle nine
  times, and every draw of the two calls of \<^verbatim>\<open>genWord\<close> is 0, which gives the word a.
\<close>

definition seedDraws :: rng where
  "seedDraws = [0, 0.35, 0.35, 0.35, 0.35, 0.35, 0.35, 0.35, 0.35, 0.35] @ replicate 10 0"

text \<open>Two clocks.\<close>

definition clockA :: clock where
  "clockA i = ''2026-01-01T00:00:00.000Z''"

definition clockB :: clock where
  "clockB i = ''2026-01-01T00:30:00.000Z''"

text \<open>
  Four living words and the compound kai of ka and ti, as the compound step builds it
  (\<^verbatim>\<open>'ka'.slice(0, 2) + 'ti'.slice(1)\<close>); no form is a key of both.
\<close>

definition liveWord :: "string \<Rightarrow> string \<Rightarrow> int \<Rightarrow> word_data" where
  "liveWord m w b = \<lparr>meaning = m, category = CONCEPT_CATS m, born = b, uses = 2,
                     fitness = 1.0, history = [w]\<rparr>"

definition kaiState :: state where
  "kaiState =
     \<lparr>words = Some [(''ka'', liveWord ''water'' ''ka'' 0), (''ti'', liveWord ''fire'' ''ti'' 0),
                     (''nu'', liveWord ''moon'' ''nu'' 3), (''mo'', liveWord ''sun'' ''mo'' 5)],
      compounds = Some [(''kai'', \<lparr>parts = [''ka'', ''ti''], meanings = [''water'', ''fire''],
                                   compound_meaning = ''water-fire'', compound_born = 8\<rparr>)],
      generation = Some 9, extinct = Some [], sound_shifts = Some [],
      events = Some [(Compound 8 ''kai'' ''water-fire'' [''ka'', ''ti''], ''2025-12-31T23:30:00.000Z'')],
      stats = Some \<lparr>total_generated = Some 4, total_extinct = Some 0,
                    total_compounds = Some 1, total_shifts = Some 0\<rparr>,
      piConnected = None, lastPiSync = None\<rparr>"

text \<open>
  Draws of one call on \<open>kaiState\<close>: a birth (0.1), its concept (0.5), the nine draws
  of \<^verbatim>\<open>genWord\<close> that spell kai, four comparisons of the sort, no shift, no compound.
\<close>

definition kaiDraws :: rng where
  "kaiDraws = [0.1, 0.5] @ [0.5, 0.5, 0.5, 0.1, 0.1, 0.5, 0.1, 0.4, 0.5]
                @ [0.1, 0.1, 0.1, 0.1] @ [0.9, 0.9]"

text \<open>
  Draws of two calls from the empty state: a birth of the word a (all five draws of
  \<^verbatim>\<open>genWord\<close> are 0), no shift, no compound; then a call with no birth.
\<close>

definition runDraws :: rng where
  "runDraws = [0.1, 0.5] @ replicate 5 0 @ [0.9, 0.9] @ [0.9, 0.9, 0.9]"

text \<open>Draws of one call from the empty state: the first call of \<open>runDraws\<close>.\<close>

definition birthDraws :: rng where
  "birthDraws = [0.1, 0.5] @ replicate 5 0 @ [0.9, 0.9]"

text \<open>The state after that call, but for the archived events.\<close>

definition bornState :: state where
  "bornState =
     emptyState\<lparr>words := Some [(''a'', (newborn 1 ''old'' ''a'')\<lparr>uses := 1, fitness := 0.6\<rparr>)],
                generation := Some 1,
                stats := Some (zeroStats\<lparr>total_generated := Some 1\<rparr>)\<rparr>"

text \<open>
  Draws of one call on \<open>kaState\<close>: a birth of the word kai, a sort that puts kai
  before ka (the comparison draws 0.9), no shift, no compound.
\<close>

definition dieDraws :: rng where
  "dieDraws = [0.1, 0.5] @ [0.5, 0.5, 0.5, 0.1, 0.1, 0.5, 0.1, 0.4, 0.5] @ [0.9] @ [0.9, 0.9]"

text \<open>Draws of a call with no birth, no shift and no compound.\<close>

definition quietDraws :: rng where
  "quietDraws = [0.9, 0.9, 0.9]"

text \<open>\<open>kaState\<close> after the birth step of a call with the draws \<open>dieDraws\<close>.\<close>

definition kaiBornState :: state where
  "kaiBornState =
     kaState\<lparr>words := Some [(''ka'', kaData), (''kai'', newborn 6 ''old'' ''kai'')],
              generation := Some 6,
              stats := Some \<lparr>total_generated = Some 2, total_extinct = Some 0,
                             total_compounds = Some 0, total_shifts = Some 0\<rparr>\<rparr>"

text \<open>
  One living word, hai, and the compound wai (of wa and ti, both extinct since); draws
  of a call with no birth and a sound shift of hai that turns h into w.
\<close>

definition haiState :: state where
  "haiState =
     \<lparr>words = Some [(''hai'', liveWord ''wind'' ''hai'' 2)],
      compounds = Some [(''wai'', \<lparr>parts = [''wa'', ''ti''], meanings = [''water'', ''fire''],
                                   compound_meaning = ''water-fire'', compound_born = 3\<rparr>)],
      generation = Some 9, extinct = Some [], sound_shifts = Some [], events = Some [],
      stats = Some \<lparr>total_generated = Some 5, total_extinct = Some 4,
                    total_compounds = Some 1, total_shifts = Some 0\<rparr>,
      piConnected = None, lastPiSync = None\<rparr>"

definition haiDraws :: rng where
  "haiDraws = [0.9] @ [0.05, 0, 0.1, 0.9] @ [0.9]"

text \<open>
  States with long histories, as a snapshot or the Pi may hand them over: an extinct
  list of 60 records, one of exactly 50, and a sound-shift list of exactly 30.
\<close>

definition oldRecord :: extinct_record where
  "oldRecord = \<lparr>extinct_word = ''mo'', extinct_meaning = ''sun'', extinct_born = 1, died = 3,
                 extinct_uses = 0\<rparr>"

definition oldShift :: shift_record where
  "oldShift = \<lparr>shift_gen = 2, shift_from = ''ku'', shift_to = ''gu'', shift_meaning = ''tree''\<rparr>"

definition bigState :: state where
  "bigState = kaState\<lparr>extinct := Some (replicate 60 oldRecord)\<rparr>"

definition fullRingState :: state where
  "fullRingState = kaState\<lparr>extinct := Some (replicate 50 oldRecord)\<rparr>"

definition fullShiftState :: state where
  "fullShiftState = haiState\<lparr>sound_shifts := Some (replicate 30 oldShift)\<rparr>"

section \<open>Lists of draws that are enough\<close>

text \<open>Every number of the list is a possible result of \<^verbatim>\<open>Math.random()\<close>.\<close>

definition validDraws :: "rng \<Rightarrow> bool" where
  "validDraws rs = list_all (\<lambda>r. 0 \<le> r \<and> r < 1) rs"

section \<open>Phonology: every word has a vowel\<close>

lemma weightedLoop_mem: "weightedLoop items ws r cum = Some x \<Longrightarrow> x \<in> set items"
  by (induction items ws r cum rule: weightedLoop.induct) (auto split: if_splits)


lemma weightedChoice_mem:
  "weightedChoice items ws rs = Some (x, rs1) \<Longrightarrow> items \<noteq> [] \<Longrightarrow> x \<in> set items"
  by (auto simp: weightedChoice_def Let_def split: Option.bind_splits option.splits
           dest: weightedLoop_mem)

lemma genSyllable_vowel:
  assumes "genSyllable rs = Some (s, rs1)"
  shows "\<exists>onset nucleus coda. s = onset @ nucleus @ coda \<and> nucleus \<in> set VOWELS"
proof -
  from assms obtain onset nucleus coda ra rb
    where s: "s = onset @ nucleus @ coda"
      and n: "weightedChoice VOWELS V_WEIGHTS ra = Some (nucleus, rb)"
    by (auto simp: genSyllable_def split: Option.bind_splits)
  have "VOWELS \<noteq> []" by (simp add: VOWELS_def)
  with n have "nucleus \<in> set VOWELS" by (rule weightedChoice_mem)
  with s show ?thesis by blast
qed

lemma genSyllable_nonempty: "genSyllable rs = Some (s, rs1) \<Longrightarrow> s \<noteq> []"
  by (drule genSyllable_vowel) (auto simp: VOWELS_def)

lemma genSyllables_nonempty: "genSyllables n rs = Some (s, rs1) \<Longrightarrow> 0 < n \<Longrightarrow> s \<noteq> []"
  by (cases n) (auto split: Option.bind_splits dest: genSyllable_nonempty)

lemma syllableCount_pos: "0 < syllableCount r"
  by (simp add: syllableCount_def)

lemma syllableCount_le: "syllableCount r \<le> 3"
  by (simp add: syllableCount_def)

lemma genWord_nonempty: "genWord rs = Some (w, rs1) \<Longrightarrow> w \<noteq> []"
  by (auto simp: genWord_def split: Option.bind_splits
           dest!: genSyllables_nonempty simp: syllableCount_pos)

lemma random_enough:
  assumes "validDraws rs" and "1 \<le> length rs"
  shows "\<exists>u rs1. random rs = Some (u, rs1) \<and> validDraws rs1 \<and> length rs \<le> length rs1 + 1"
  using assms by (cases rs) (auto simp: random_def validDraws_def)

lemma weightedChoice_enough:
  assumes "validDraws rs" and "1 \<le> length rs"
  shows "\<exists>x rs1. weightedChoice items ws rs = Some (x, rs1) \<and> validDraws rs1
           \<and> length rs \<le> length rs1 + 1"
  using random_enough[OF assms] by (auto simp: weightedChoice_def)

lemma genSyllable_enough:
  assumes "validDraws rs" and "5 \<le> length rs"
  shows "\<exists>s rs5. genSyllable rs = Some (s, rs5) \<and> validDraws rs5 \<and> length rs \<le> length rs5 + 5"
proof -
  from random_enough[of rs] assms obtain u1 rs1
    where 1: "random rs = Some (u1, rs1)" "validDraws rs1" "length rs \<le> length rs1 + 1"
    by auto
  have "\<exists>onset rs2. (if u1 > 0.2 then weightedChoice CONSONANTS C_WEIGHTS rs1
                       else Some ('''', rs1)) = Some (onset, rs2)
          \<and> validDraws rs2 \<and> length rs1 \<le> length rs2 + 1"
    using weightedChoice_enough[of rs1 CONSONANTS C_WEIGHTS] 1 assms(2) by auto
  then obtain onset rs2
    where 2: "(if u1 > 0.2 then weightedChoice CONSONANTS C_WEIGHTS rs1
               else Some ('''', rs1)) = Some (onset, rs2)"
      "validDraws rs2" "length rs1 \<le> length rs2 + 1"
    by blast
  from weightedChoice_enough[of rs2 VOWELS V_WEIGHTS] 1 2 assms(2) obtain nucleus rs3
    where 3: "weightedChoice VOWELS V_WEIGHTS rs2 = Some (nucleus, rs3)"
      "validDraws rs3" "length rs2 \<le> length rs3 + 1"
    by auto
  from random_enough[of rs3] 1 2 3 assms(2) obtain u2 rs4
    where 4: "random rs3 = Some (u2, rs4)" "validDraws rs4" "length rs3 \<le> length rs4 + 1"
    by auto
  have "\<exists>coda rs5. (if u2 > 0.7
                     then do {
                       (u3, rs5) \<leftarrow> random rs4;
                       Some ([''n'', ''m'', ''''] ! randIndex u3 3, rs5)
                     }
                     else Some ('''', rs4)) = Some (coda, rs5)
          \<and> validDraws rs5 \<and> length rs4 \<le> length rs5 + 1"
    using random_enough[of rs4] 1 2 3 4 assms(2) by auto
  then obtain coda rs5
    where 5: "(if u2 > 0.7
               then do {
                 (u3, rs5) \<leftarrow> random rs4;
                 Some ([''n'', ''m'', ''''] ! randIndex u3 3, rs5)
               }
               else Some ('''', rs4)) = Some (coda, rs5)"
      "validDraws rs5" "length rs4 \<le> length rs5 + 1"
    by blast
  have "genSyllable rs = Some (onset @ nucleus @ coda, rs5)"
    unfolding genSyllable_def using 1(1) 2(1) 3(1) 4(1) 5(1) by simp
  moreover have "length rs \<le> length rs5 + 5"
    using 1(3) 2(3) 3(3) 4(3) 5(3) by linarith
  ultimately show ?thesis using 5(2) by blast
qed

lemma genSyllables_enough:
  "validDraws rs \<Longrightarrow> 5 * n \<le> length rs \<Longrightarrow>
     \<exists>s rs1. genSyllables n rs = Some (s, rs1) \<and> validDraws rs1 \<and> length rs \<le> length rs1 + 5 * n"
proof (induction n arbitrary: rs)
  case 0
  then show ?case by simp
next
  case (Suc n)
  from genSyllable_enough[of rs] Suc.prems obtain s rs1
    where 1: "genSyllable rs = Some (s, rs1)" "validDraws rs1" "length rs \<le> length rs1 + 5"
    by auto
  from Suc.IH[of rs1] 1 Suc.prems obtain t rs2
    where 2: "genSyllables n rs1 = Some (t, rs2)" "validDraws rs2"
      "length rs1 \<le> length rs2 + 5 * n"
    by auto
  have "genSyllables (Suc n) rs = Some (s @ t, rs2)" using 1(1) 2(1) by simp
  moreover have "length rs \<le> length rs2 + 5 * Suc n" using 1(3) 2(3) by simp
  ultimately show ?case using 2(2) by blast
qed

lemma genWord_enough:
  assumes "validDraws rs" and "17 \<le> length rs"
  shows "\<exists>w rs1. genWord rs = Some (w, rs1) \<and> validDraws rs1 \<and> length rs \<le> length rs1 + 17"
proof -
  from random_enough[of rs] assms obtain u0 rs1
    where 1: "random rs = Some (u0, rs1)" "validDraws rs1" "length rs \<le> length rs1 + 1"
    by auto
  from random_enough[of rs1] 1 assms(2) obtain u1 rs2
    where 2: "random rs1 = Some (u1, rs2)" "validDraws rs2" "length rs1 \<le> length rs2 + 1"
    by auto
  let ?n = "syllableCount (u1 * 100)"
  have n: "5 * ?n \<le> 15" using syllableCount_le[of "u1 * 100"] by simp
  then have "5 * ?n \<le> length rs2" using 1(3) 2(3) assms(2) by linarith
  from genSyllables_enough[OF 2(2) this] obtain w rs3
    where 3: "genSyllables ?n rs2 = Some (w, rs3)" "validDraws rs3"
      "length rs2 \<le> length rs3 + 5 * ?n"
    by blast
  have "genWord rs = Some (w, rs3)" unfolding genWord_def using 1(1) 2(1) 3(1) by simp
  moreover have "length rs \<le> length rs3 + 17" using 1(3) 2(3) 3(3) n by linarith
  ultimately show ?thesis using 3(2) by blast
qed

lemma freshWord_new:
  "freshWord ws rs = Some (w, rs1) \<Longrightarrow> w \<noteq> [] \<and> map_of ws w = None"
proof (induction ws rs rule: freshWord.induct)
  case (1 ws rs)
  show ?case
  proof (cases "genWord rs")
    case None
    with "1.prems" show ?thesis by (simp add: freshWord.simps[of ws rs])
  next
    case (Some p)
    obtain word rs0 where p: "p = (word, rs0)" by (cases p)
    show ?thesis
    proof (cases "map_of ws word \<noteq> None")
      case True
      with Some p "1.prems" have "freshWord ws rs0 = Some (w, rs1)"
        by (simp add: freshWord.simps[of ws rs])
      with "1.IH"[OF Some p[symmetric] True] show ?thesis by simp
    next
      case False
      with Some p "1.prems" have "w = word"
        by (simp add: freshWord.simps[of ws rs])
      with False Some p genWord_nonempty show ?thesis by auto
    qed
  qed
qed

lemma orEmpty_simps [simp]: "orEmpty None = []" "orEmpty (Some xs) = xs"
  by (simp_all add: orEmpty_def)

lemma orZero_simps [simp]: "orZero None = 0" "orZero (Some n) = n"
  by (simp_all add: orZero_def)

lemma orStats_simps [simp]: "orStats None = zeroStats" "orStats (Some s) = s"
  by (simp_all add: orStats_def)

lemma birthStep_cases:
  assumes "birthStep gen st evs rs = Some (st1, evs1, rs1)"
  obtains (none) "st1 = st" and "evs1 = evs"
  | (born) word concept where "map_of (orEmpty (words st)) word = None" and "word \<noteq> []"
      and "st1 = incGenerated (st\<lparr>words := Some (AList.update word (newborn gen concept word)
                                                    (orEmpty (words st)))\<rparr>)"
      and "evs1 = evs @ [Birth gen word concept (CONCEPT_CATS concept)]"
proof -
  from assms obtain u rsa where r: "random rs = Some (u, rsa)"
    by (auto simp: birthStep_def split: Option.bind_splits)
  show ?thesis
  proof (cases "u < 0.7")
    case False
    with assms r have "st1 = st" and "evs1 = evs"
      by (auto simp: birthStep_def)
    then show ?thesis by (rule none)
  next
    case True
    with assms r obtain v rsb word
      where f: "freshWord (orEmpty (words st)) rsb = Some (word, rs1)"
        and s: "st1 = incGenerated (st\<lparr>words := Some (AList.update word
                  (newborn gen (pickConcept (orEmpty (words st)) v) word) (orEmpty (words st)))\<rparr>)"
        and e: "evs1 = evs @ [Birth gen word (pickConcept (orEmpty (words st)) v)
                  (CONCEPT_CATS (pickConcept (orEmpty (words st)) v))]"
      by (auto simp: birthStep_def Let_def split: Option.bind_splits)
    from freshWord_new[OF f] s e show ?thesis by (auto intro: born)
  qed
qed

lemma birthStep_no_empty_key:
  assumes "birthStep gen st evs rs = Some (st1, evs1, rs1)"
    and "[] \<in> fst ` set (orEmpty (words st1))"
  shows "[] \<in> fst ` set (orEmpty (words st))"
  using assms(1)
proof (cases rule: birthStep_cases)
  case none
  with assms(2) show ?thesis by simp
next
  case (born word concept)
  with assms(2) show ?thesis
    by (auto simp: incGenerated_def Let_def dom_update image_iff)
qed

text \<open>
  C9. Whatever the draws, a syllable that \<^verbatim>\<open>genSyllable\<close> returns holds a vowel (the
  nucleus is unconditional, and \<^verbatim>\<open>weightedChoice\<close> over the vowels returns a vowel), so
  a word that \<^verbatim>\<open>genWord\<close> returns is not the empty string, and the birth step never
  adds the empty string to the keys of the living words. Both functions do return:
  five draws are enough for a syllable, seventeen for a word.
\<close>

theorem genWord_never_empty:
  "(weightedChoice VOWELS V_WEIGHTS rs = Some (x, rs0) \<longrightarrow> x \<in> set VOWELS)
   \<and> (genSyllable rs = Some (s, rs1) \<longrightarrow>
        (\<exists>onset nucleus coda. s = onset @ nucleus @ coda \<and> nucleus \<in> set VOWELS))
   \<and> (genWord rs = Some (w, rs2) \<longrightarrow> w \<noteq> [])
   \<and> (validDraws rs \<and> 5 \<le> length rs \<longrightarrow> (\<exists>s' rs'. genSyllable rs = Some (s', rs')))
   \<and> (validDraws rs \<and> 17 \<le> length rs \<longrightarrow> (\<exists>w' rs'. genWord rs = Some (w', rs')))
   \<and> (birthStep gen st evs rs = Some (st1, evs1, rs3)
        \<and> [] \<notin> fst ` set (orEmpty (words st)) \<longrightarrow> [] \<notin> fst ` set (orEmpty (words st1)))"
proof (intro conjI impI)
  assume "weightedChoice VOWELS V_WEIGHTS rs = Some (x, rs0)"
  then show "x \<in> set VOWELS"
    by (rule weightedChoice_mem) (simp add: VOWELS_def)
next
  assume "genSyllable rs = Some (s, rs1)"
  then show "\<exists>onset nucleus coda. s = onset @ nucleus @ coda \<and> nucleus \<in> set VOWELS"
    by (rule genSyllable_vowel)
next
  assume "genWord rs = Some (w, rs2)"
  then show "w \<noteq> []" by (rule genWord_nonempty)
next
  assume "validDraws rs \<and> 5 \<le> length rs"
  with genSyllable_enough[of rs] show "\<exists>s' rs'. genSyllable rs = Some (s', rs')" by blast
next
  assume "validDraws rs \<and> 17 \<le> length rs"
  with genWord_enough[of rs] show "\<exists>w' rs'. genWord rs = Some (w', rs')" by blast
next
  assume "birthStep gen st evs rs = Some (st1, evs1, rs3) \<and> [] \<notin> fst ` set (orEmpty (words st))"
  with birthStep_no_empty_key[of gen st evs rs st1 evs1 rs3]
  show "[] \<notin> fst ` set (orEmpty (words st1))" by blast
qed

lemma zero_draws_example:
  "validDraws (replicate 17 0) \<and> 5 \<le> length (replicate 17 (0::real))"
  "validDraws (replicate 17 0) \<and> 17 \<le> length (replicate 17 (0::real))"
  by (simp_all add: validDraws_def list_all_iff)

lemma zero_draws_run:
  "map_option fst (weightedChoice VOWELS V_WEIGHTS (replicate 17 0)) = Some ''a''"
  "map_option (\<lambda>(st, evs, rs). evs) (birthStep 1 emptyState [] (replicate 17 0))
     = Some [Birth 1 ''a'' ''water'' (Some ''natural'')]"
  by code_simp+

theorem genWord_never_empty_witness:
  "(\<exists>x rs'. weightedChoice VOWELS V_WEIGHTS (replicate 17 0) = Some (x, rs') \<and> x \<in> set VOWELS)
   \<and> (\<exists>s rs' onset nucleus coda. genSyllable (replicate 17 0) = Some (s, rs')
          \<and> s = onset @ nucleus @ coda \<and> nucleus \<in> set VOWELS)
   \<and> (\<exists>w rs'. genWord (replicate 17 0) = Some (w, rs') \<and> w \<noteq> [])
   \<and> (\<exists>st1 evs1 rs'. birthStep 1 emptyState [] (replicate 17 0) = Some (st1, evs1, rs')
          \<and> [] \<notin> fst ` set (orEmpty (words st1)))"
proof -
  let ?rs = "replicate 17 (0::real)"
  from zero_draws_run(1) obtain x rs0
    where c: "weightedChoice VOWELS V_WEIGHTS ?rs = Some (x, rs0)"
    by auto
  from genWord_never_empty[where rs = ?rs and x = x and ?rs0.0 = rs0, THEN conjunct1] c
  have "x \<in> set VOWELS" by simp
  with c have 1: "\<exists>x rs'. weightedChoice VOWELS V_WEIGHTS ?rs = Some (x, rs') \<and> x \<in> set VOWELS"
    by blast
  from genWord_never_empty[where rs = ?rs, THEN conjunct2, THEN conjunct2, THEN conjunct2,
      THEN conjunct1] zero_draws_example(1)
  obtain s rs1 where s: "genSyllable ?rs = Some (s, rs1)"
    by blast
  from genWord_never_empty[where rs = ?rs and s = s and ?rs1.0 = rs1, THEN conjunct2,
      THEN conjunct1] s
  obtain onset nucleus coda where "s = onset @ nucleus @ coda" and "nucleus \<in> set VOWELS"
    by blast
  with s have 2: "\<exists>s rs' onset nucleus coda. genSyllable ?rs = Some (s, rs')
          \<and> s = onset @ nucleus @ coda \<and> nucleus \<in> set VOWELS"
    by blast
  from genWord_never_empty[where rs = ?rs, THEN conjunct2, THEN conjunct2, THEN conjunct2,
      THEN conjunct2, THEN conjunct1] zero_draws_example(2)
  obtain w rs2 where g: "genWord ?rs = Some (w, rs2)"
    by blast
  from genWord_never_empty[where rs = ?rs and w = w and ?rs2.0 = rs2, THEN conjunct2,
      THEN conjunct2, THEN conjunct1] g
  have "w \<noteq> []" by simp
  with g have 3: "\<exists>w rs'. genWord ?rs = Some (w, rs') \<and> w \<noteq> []"
    by blast
  from zero_draws_run(2) obtain st1 evs1 rs3
    where b: "birthStep 1 emptyState [] ?rs = Some (st1, evs1, rs3)"
    by auto
  have "[] \<notin> fst ` set (orEmpty (words emptyState))"
    by (simp add: emptyState_def)
  with genWord_never_empty[where rs = ?rs and gen = 1 and st = emptyState and evs = "[]"
      and ?st1.0 = st1 and ?evs1.0 = evs1 and ?rs3.0 = rs3, THEN conjunct2, THEN conjunct2,
      THEN conjunct2, THEN conjunct2, THEN conjunct2] b
  have "[] \<notin> fst ` set (orEmpty (words st1))"
    by simp
  with b have 4: "\<exists>st1 evs1 rs'. birthStep 1 emptyState [] ?rs = Some (st1, evs1, rs')
          \<and> [] \<notin> fst ` set (orEmpty (words st1))"
    by blast
  from 1 2 3 4 show ?thesis by (intro conjI)
qed

section \<open>Sentence generator: a preference miss\<close>







section \<open>Synchronizer\<close>

text \<open>\<^verbatim>\<open>a && a.length > b.length ? a : b\<close> on the lists read with \<^verbatim>\<open>|| []\<close>.\<close>

lemma longer_extinct:
  "orEmpty (extinct (snd (syncFromPi now (Body p) st)))
     = (if length (orEmpty (extinct p)) > length (orEmpty (extinct st))
        then orEmpty (extinct p) else orEmpty (extinct st))"
  by (cases "extinct p"; cases "extinct st"; cases "words p")
     (simp_all add: syncFromPi_def Let_def)

lemma longer_shifts:
  "orEmpty (sound_shifts (snd (syncFromPi now (Body p) st)))
     = (if length (orEmpty (sound_shifts p)) > length (orEmpty (sound_shifts st))
        then orEmpty (sound_shifts p) else orEmpty (sound_shifts st))"
  by (cases "sound_shifts p"; cases "sound_shifts st"; cases "words p")
     (simp_all add: syncFromPi_def Let_def)

lemma sync_replaced:
  "words (snd (syncFromPi now (Body p) st)) = Some (orEmpty (words p))
   \<and> compounds (snd (syncFromPi now (Body p) st)) = Some (orEmpty (compounds p))
   \<and> generation (snd (syncFromPi now (Body p) st)) = Some (orZero (generation p))
   \<and> events (snd (syncFromPi now (Body p) st)) = Some (orEmpty (events st))"
  by (cases "words p") (simp_all add: syncFromPi_def Let_def)

lemma sync_stats:
  "stats (snd (syncFromPi now (Body p) st))
     = Some (case stats p of Some s \<Rightarrow> s
             | None \<Rightarrow> (case stats st of Some s \<Rightarrow> s
                | None \<Rightarrow> \<lparr>total_generated = None, total_extinct = None,
                            total_compounds = None, total_shifts = None\<rparr>))"
  by (cases "words p") (simp_all add: syncFromPi_def Let_def)

text \<open>
  C7. With a state \<open>p\<close> from the Pi, the merge replaces \<^verbatim>\<open>words\<close>, \<^verbatim>\<open>compounds\<close> and
  \<^verbatim>\<open>generation\<close> by those of \<open>p\<close> (a missing one by its default), keeps the longer of
  the two \<^verbatim>\<open>extinct\<close> lists and of the two \<^verbatim>\<open>sound_shifts\<close> lists, takes the stats of
  \<open>p\<close> if it has them and else keeps the local ones, and keeps the local events. When
  the fetch fails or times out the state is the one before but for \<^verbatim>\<open>piConnected\<close>,
  which is false, and the call returns false. (A response whose \<^verbatim>\<open>ok\<close> is false is
  no failure of the fetch: no exception is thrown, and the state stays as it is, its
  flag too.)
\<close>

theorem syncFromPi_merge:
  "(syncFromPi now (Body p) st = (ok, st1) \<longrightarrow>
      words st1 = Some (orEmpty (words p))
      \<and> compounds st1 = Some (orEmpty (compounds p))
      \<and> generation st1 = Some (orZero (generation p))
      \<and> orEmpty (extinct st1)
          = (if length (orEmpty (extinct p)) > length (orEmpty (extinct st))
             then orEmpty (extinct p) else orEmpty (extinct st))
      \<and> orEmpty (sound_shifts st1)
          = (if length (orEmpty (sound_shifts p)) > length (orEmpty (sound_shifts st))
             then orEmpty (sound_shifts p) else orEmpty (sound_shifts st))
      \<and> (stats p \<noteq> None \<longrightarrow> stats st1 = stats p)
      \<and> (stats p = None \<and> stats st \<noteq> None \<longrightarrow> stats st1 = stats st)
      \<and> events st1 = Some (orEmpty (events st)))
   \<and> syncFromPi now Failed st = (False, st\<lparr>piConnected := Some False\<rparr>)
   \<and> syncFromPi now NotOk st = (False, st)"
proof (intro conjI impI)
  assume a: "syncFromPi now (Body p) st = (ok, st1)"
  then have s: "st1 = snd (syncFromPi now (Body p) st)" by simp
  show "words st1 = Some (orEmpty (words p))"
    and "compounds st1 = Some (orEmpty (compounds p))"
    and "generation st1 = Some (orZero (generation p))"
    and "events st1 = Some (orEmpty (events st))"
    unfolding s using sync_replaced[of now p st] by simp_all
  show "orEmpty (extinct st1)
          = (if length (orEmpty (extinct p)) > length (orEmpty (extinct st))
             then orEmpty (extinct p) else orEmpty (extinct st))"
    unfolding s by (rule longer_extinct)
  show "orEmpty (sound_shifts st1)
          = (if length (orEmpty (sound_shifts p)) > length (orEmpty (sound_shifts st))
             then orEmpty (sound_shifts p) else orEmpty (sound_shifts st))"
    unfolding s by (rule longer_shifts)
  show "stats st1 = stats p" if "stats p \<noteq> None"
    unfolding s using that by (auto simp: sync_stats)
  show "stats st1 = stats st" if "stats p = None \<and> stats st \<noteq> None"
    unfolding s using that by (auto simp: sync_stats)
next
  show "syncFromPi now Failed st = (False, st\<lparr>piConnected := Some False\<rparr>)"
    by (simp add: syncFromPi_def)
next
  show "syncFromPi now NotOk st = (False, st)"
    by (simp add: syncFromPi_def)
qed

theorem syncFromPi_merge_witness:
  "syncFromPi ''t1'' (Body piExample) kaState
     = (True, piExample\<lparr>sound_shifts := Some [], events := events kaState,
                         piConnected := Some True, lastPiSync := Some ''t1''\<rparr>)
   \<and> words (snd (syncFromPi ''t1'' (Body piExample) kaState)) = words piExample
   \<and> extinct (snd (syncFromPi ''t1'' (Body piExample) kaState)) = extinct piExample
   \<and> stats (snd (syncFromPi ''t1'' (Body piExample) kaState)) = stats piExample
   \<and> events (snd (syncFromPi ''t1'' (Body piExample) kaState)) = events kaState
   \<and> stats (snd (syncFromPi ''t1'' (Body (piExample\<lparr>stats := None\<rparr>)) kaState)) = stats kaState
   \<and> syncFromPi ''t1'' Failed kaState = (False, kaState\<lparr>piConnected := Some False\<rparr>)"
proof -
  have e: "syncFromPi ''t1'' (Body piExample) kaState
     = (True, piExample\<lparr>sound_shifts := Some [], events := events kaState,
                         piConnected := Some True, lastPiSync := Some ''t1''\<rparr>)"
    by (simp add: syncFromPi_def piExample_def kaState_def Let_def)
  obtain ok st1
    where n: "syncFromPi ''t1'' (Body (piExample\<lparr>stats := None\<rparr>)) kaState = (ok, st1)"
    by (cases "syncFromPi ''t1'' (Body (piExample\<lparr>stats := None\<rparr>)) kaState")
  have "stats (piExample\<lparr>stats := None\<rparr>) = None \<and> stats kaState \<noteq> None"
    by (simp add: kaState_def)
  with syncFromPi_merge[where now = "''t1''" and p = "piExample\<lparr>stats := None\<rparr>"
      and st = kaState and ok = ok and ?st1.0 = st1] n
  have s: "stats (snd (syncFromPi ''t1'' (Body (piExample\<lparr>stats := None\<rparr>)) kaState))
             = stats kaState"
    by simp
  from syncFromPi_merge[of "''t1''" piExample kaState True
      "piExample\<lparr>sound_shifts := Some [], events := events kaState,
                  piConnected := Some True, lastPiSync := Some ''t1''\<rparr>"] e s
  show ?thesis
    by (simp add: piExample_def kaState_def)
qed

section \<open>Startup: the seed\<close>

lemma length_update_le: "length (AList.update k v al) \<le> Suc (length al)"
  by (induction al) auto

lemma seedWords_length:
  "seedWords cs ws rs = Some (ws1, rs1) \<Longrightarrow> length ws1 \<le> length ws + length cs"
proof (induction cs arbitrary: ws rs)
  case Nil
  then show ?case by simp
next
  case (Cons c cs)
  from Cons.prems obtain word rs0
    where "seedWords cs (AList.update word (\<lparr>meaning = c, category = CONCEPT_CATS c, born = 0,
             uses = 1, fitness = 1.0, history = [word]\<rparr>) ws) rs0 = Some (ws1, rs1)"
    by (auto simp: Let_def split: Option.bind_splits)
  from Cons.IH[OF this] show ?case
    using length_update_le[of word _ ws] by (simp add: le_trans)
qed

lemma uniqueFirst_length: "length (uniqueFirst xs) = card (set xs)"
  by (simp add: uniqueFirst_def length_remdups_card_conv)

lemma initState_fresh:
  "initState None rs = seedState emptyState rs"
  by (cases "seedState emptyState rs")
     (auto simp: initState_def seedState_def emptyState_def split: Option.bind_splits)

lemma seed_example:
  "drawConcepts 10 seedDraws
     = Some ([''water'', ''cycle'', ''cycle'', ''cycle'', ''cycle'', ''cycle'', ''cycle'',
              ''cycle'', ''cycle'', ''cycle''], replicate 10 0)"
  "initState None seedDraws
     = Some (emptyState\<lparr>words := Some [(''a'', \<lparr>meaning = ''cycle'', category = Some ''abstract'',
                                               born = 0, uses = 1, fitness = 1, history = [''a'']\<rparr>)],
                          stats := Some (zeroStats\<lparr>total_generated := Some 1\<rparr>)\<rparr>, [])"
  by code_simp+

text \<open>
  C10. A fresh start (no snapshot) sets \<^verbatim>\<open>total_generated\<close> to the number of living
  words, which is at most the number of distinct concepts drawn and can be less: the
  seed loop assigns \<^verbatim>\<open>state.words[word]\<close> with no check, and a form generated twice
  keeps only the later entry. With the draws \<open>seedDraws\<close> the concepts water and cycle
  both get the form a, and the one word left means cycle.
\<close>

theorem seed_total_generated:
  "(initState None rs = Some (st, rs2) \<longrightarrow>
      total_generated (orStats (stats st)) = Some (int (length (orEmpty (words st)))))
   \<and> (drawConcepts 10 rs = Some (initial, rs1) \<and> initState None rs = Some (st, rs2) \<longrightarrow>
        length (orEmpty (words st)) \<le> card (set initial))
   \<and> (\<exists>initial' rs1' st' rs2'.
        drawConcepts 10 seedDraws = Some (initial', rs1')
        \<and> initState None seedDraws = Some (st', rs2')
        \<and> length (orEmpty (words st')) < card (set initial')
        \<and> map (\<lambda>(k, d). meaning d) (orEmpty (words st')) = [last initial'])"
proof (intro conjI impI)
  assume "initState None rs = Some (st, rs2)"
  then show "total_generated (orStats (stats st)) = Some (int (length (orEmpty (words st))))"
    by (auto simp: initState_fresh seedState_def Let_def split: Option.bind_splits)
next
  assume a: "drawConcepts 10 rs = Some (initial, rs1) \<and> initState None rs = Some (st, rs2)"
  then obtain ws where w: "seedWords (take 10 (uniqueFirst initial)) [] rs1 = Some (ws, rs2)"
    and s: "orEmpty (words st) = ws"
    by (auto simp: initState_fresh seedState_def Let_def emptyState_def split: Option.bind_splits)
  from seedWords_length[OF w] have "length ws \<le> length (uniqueFirst initial)" by simp
  with s show "length (orEmpty (words st)) \<le> card (set initial)"
    by (simp add: uniqueFirst_length)
next
  show "\<exists>initial' rs1' st' rs2'.
        drawConcepts 10 seedDraws = Some (initial', rs1')
        \<and> initState None seedDraws = Some (st', rs2')
        \<and> length (orEmpty (words st')) < card (set initial')
        \<and> map (\<lambda>(k, d). meaning d) (orEmpty (words st')) = [last initial']"
    unfolding seed_example by (simp add: card_insert_if)
qed

theorem seed_total_generated_witness:
  "\<exists>initial rs1 st rs2. drawConcepts 10 seedDraws = Some (initial, rs1)
     \<and> initState None seedDraws = Some (st, rs2)
     \<and> total_generated (orStats (stats st)) = Some 1
     \<and> length (orEmpty (words st)) = 1
     \<and> length (orEmpty (words st)) \<le> card (set initial)"
proof -
  from seed_example obtain initial rs1 st rs2
    where d: "drawConcepts 10 seedDraws = Some (initial, rs1)"
      and i: "initState None seedDraws = Some (st, rs2)"
      and l: "length (orEmpty (words st)) = 1"
    by simp
  from seed_total_generated[where rs = seedDraws and st = st and ?rs2.0 = rs2
      and initial = initial and ?rs1.0 = rs1] d i l
  have "total_generated (orStats (stats st)) = Some 1"
    and "length (orEmpty (words st)) \<le> card (set initial)"
    by simp_all
  with d i l show ?thesis by blast
qed

section \<open>The steps of a generation, case by case\<close>

lemma usageStep_cases:
  assumes "usageStep srt st rs = Some (st1, rs1)"
  obtains shuffled where "srt (map fst (orEmpty (words st))) rs = Some (shuffled, rs1)"
    and "mset shuffled = mset (map fst (orEmpty (words st)))"
    and "st1 = st\<lparr>words := Some (foldl (\<lambda>ws k. useWord k ws) (orEmpty (words st))
                 (take (min (max 1 (length (orEmpty (words st)) div 3)) (length shuffled))
                    shuffled))\<rparr>"
  using assms
  by (auto simp: usageStep_def Let_def split: Option.bind_splits if_splits)

lemma shiftStep_cases:
  assumes "shiftStep gen st evs rs = Some (st1, evs1, rs1)"
  obtains (none) "st1 = st" and "evs1 = evs"
  | (shifted) target newForm data
    where "map_of (orEmpty (words st)) target = Some data"
      and "map_of (orEmpty (words st)) newForm = None"
      and "newForm \<noteq> target"
      and "st1 = (incShifts (st\<lparr>words := Some (AList.update newForm
                     (data\<lparr>history := history data @ [newForm]\<rparr>)
                     (AList.delete target (orEmpty (words st))))\<rparr>))
                 \<lparr>sound_shifts := Some
                    (let sh = orEmpty (sound_shifts st) @
                        [\<lparr>shift_gen = gen, shift_from = target, shift_to = newForm,
                          shift_meaning = meaning data\<rparr>]
                     in if length sh > 30 then lastN 30 sh else sh)\<rparr>"
      and "evs1 = evs @ [Shift gen target newForm (meaning data)]"
proof -
  from assms obtain u rsa where r: "random rs = Some (u, rsa)"
    by (auto simp: shiftStep_def split: Option.bind_splits)
  show ?thesis
  proof (cases "u < 0.1 \<and> length (map fst (orEmpty (words st))) > 0")
    case False
    with assms r have "st1 = st" and "evs1 = evs"
      by (auto simp: shiftStep_def Let_def)
    then show ?thesis by (rule none)
  next
    case True
    with assms r obtain v rsb result sh rsc
      where v: "random rsa = Some (v, rsb)"
        and c: "shiftChars (map fst (orEmpty (words st)) !
                  randIndex v (length (map fst (orEmpty (words st))))) rsb
                = Some (result, sh, rsc)"
      by (auto simp: shiftStep_def Let_def split: Option.bind_splits)
    let ?target = "map fst (orEmpty (words st)) ! randIndex v (length (map fst (orEmpty (words st))))"
    let ?new = "concat result"
    show ?thesis
    proof (cases "sh \<and> ?new \<noteq> ?target \<and> map_of (orEmpty (words st)) ?new = None")
      case False
      with assms r True v c have "st1 = st" and "evs1 = evs"
        by (auto simp: shiftStep_def Let_def)
      then show ?thesis by (rule none)
    next
      case yes: True
      with assms r True v c obtain data
        where d: "map_of (orEmpty (words st)) ?target = Some data"
        by (auto simp: shiftStep_def Let_def split: Option.bind_splits)
      with assms r True v c yes
      have "st1 = (incShifts (st\<lparr>words := Some (AList.update ?new
                     (data\<lparr>history := history data @ [?new]\<rparr>)
                     (AList.delete ?target (orEmpty (words st))))\<rparr>))
                 \<lparr>sound_shifts := Some
                    (let sh = orEmpty (sound_shifts st) @
                        [\<lparr>shift_gen = gen, shift_from = ?target, shift_to = ?new,
                          shift_meaning = meaning data\<rparr>]
                     in if length sh > 30 then lastN 30 sh else sh)\<rparr>"
        and "evs1 = evs @ [Shift gen ?target ?new (meaning data)]"
        by (auto simp: shiftStep_def Let_def incShifts_def)
      with d yes show ?thesis by (auto intro: shifted)
    qed
  qed
qed

lemma compoundStep_cases:
  assumes "compoundStep gen st evs rs = Some (st1, evs1, rs1)"
  obtains (none) "st1 = st" and "evs1 = evs"
  | (compound) compound c cmeaning ps
    where "map_of (orEmpty (words st)) compound = None"
      and "map_of (orEmpty (compounds st)) compound = None"
      and "4 \<le> length (orEmpty (words st))"
      and "st1 = incCompounds (st\<lparr>compounds := Some (AList.update compound c
                                                       (orEmpty (compounds st)))\<rparr>)"
      and "evs1 = evs @ [Compound gen compound cmeaning ps]"
proof -
  from assms obtain u rsa where r: "random rs = Some (u, rsa)"
    by (auto simp: compoundStep_def split: Option.bind_splits)
  let ?ks = "map fst (orEmpty (words st))"
  show ?thesis
  proof (cases "u < 0.15 \<and> length ?ks \<ge> 4")
    case False
    with assms r have "st1 = st" and "evs1 = evs"
      by (auto simp: compoundStep_def Let_def)
    then show ?thesis by (rule none)
  next
    case True
    with assms r obtain v1 rsb v2 rsc
      where v: "random rsa = Some (v1, rsb)" "random rsb = Some (v2, rsc)"
      by (auto simp: compoundStep_def Let_def split: Option.bind_splits)
    let ?w1 = "?ks ! randIndex v1 (length ?ks)"
    let ?w2 = "?ks ! randIndex v2 (length ?ks)"
    let ?c = "take (max 2 (length ?w1 div 2)) ?w1 @ drop (length ?w2 div 2) ?w2"
    show ?thesis
    proof (cases "?w1 \<noteq> ?w2 \<and> map_of (orEmpty (words st)) ?c = None
                  \<and> map_of (orEmpty (compounds st)) ?c = None")
      case False
      with assms r True v have "st1 = st" and "evs1 = evs"
        by (auto simp: compoundStep_def Let_def split: Option.bind_splits if_splits)
      then show ?thesis by (rule none)
    next
      case yes: True
      with assms r True v obtain d1 d2
        where d: "map_of (orEmpty (words st)) ?w1 = Some d1"
          "map_of (orEmpty (words st)) ?w2 = Some d2"
        by (auto simp: compoundStep_def Let_def split: Option.bind_splits if_splits)
      with assms r True v yes
      have "st1 = incCompounds (st\<lparr>compounds := Some (AList.update ?c
                    \<lparr>parts = [?w1, ?w2], meanings = [meaning d1, meaning d2],
                     compound_meaning = meaning d1 @ ''-'' @ meaning d2, compound_born = gen\<rparr>
                    (orEmpty (compounds st)))\<rparr>)"
        and "evs1 = evs @ [Compound gen ?c (meaning d1 @ ''-'' @ meaning d2) [?w1, ?w2]]"
        by (auto simp: compoundStep_def Let_def)
      with yes True show ?thesis by (auto intro: compound)
    qed
  qed
qed

lemma evolveStep_cases:
  assumes "evolveStep srt now st rs = Some (evs, st', rs')"
  obtains gen st1 st2 evs2 rs2 st3 rs3 st5 evs5 st6 evs6 rs6 st7
  where "gen = orZero (generation st) + 1"
    and "st1 = (ensureFields st)\<lparr>generation := Some gen\<rparr>"
    and "birthStep gen st1 [] rs = Some (st2, evs2, rs2)"
    and "usageStep srt st2 rs2 = Some (st3, rs3)"
    and "extinctionStep gen (decayStep gen st3) evs2 = (st5, evs5)"
    and "shiftStep gen st5 evs5 rs3 = Some (st6, evs6, rs6)"
    and "compoundStep gen st6 evs6 rs6 = Some (st7, evs, rs')"
    and "st' = storeEvents now evs st7"
  using assms
  by (auto simp: evolveStep_def Let_def ensureFields_def split: Option.bind_splits prod.splits)

section \<open>The extinction loop\<close>

lemma lastN_le [simp]: "length xs \<le> n \<Longrightarrow> lastN n xs = xs"
  by (simp add: lastN_def)

lemma length_lastN [simp]: "length (lastN n xs) = min n (length xs)"
  by (simp add: lastN_def)

lemma trim_lastN: "(if length xs > n then lastN n xs else xs) = lastN n xs"
  by simp

lemma lastN_lastN_append: "lastN n (lastN n xs @ ys) = lastN n (xs @ ys)"
  by (cases "length xs \<le> n") (simp_all add: lastN_def add.commute)

text \<open>
  The loop over the keys \<open>map fst ws\<close>, started when the living words are
  \<open>surv @ ws\<close>: it leaves \<open>surv\<close> and the entries of \<open>ws\<close> with positive fitness, and
  writes a record and an event for every other entry, in order.
\<close>

lemma extinct_loop:
  assumes "orEmpty (words st) = surv @ ws" and "distinct (map fst (surv @ ws))"
    and "foldl (\<lambda>acc w. extinctWord gen w acc) (st, evs) (map fst ws) = (st1, evs1)"
  shows "orEmpty (words st1) = surv @ filter (\<lambda>e. \<not> isDead e) ws
    \<and> evs1 = evs @ map (extinctEvent gen) (filter isDead ws)
    \<and> orEmpty (extinct st1)
        = (if filter isDead ws = [] then orEmpty (extinct st)
           else lastN 50 (orEmpty (extinct st) @ map (extinctRecord gen) (filter isDead ws)))
    \<and> totalExtinct st1 = totalExtinct st + int (length (filter isDead ws))
    \<and> totalGenerated st1 = totalGenerated st
    \<and> totalCompounds st1 = totalCompounds st
    \<and> totalShifts st1 = totalShifts st
    \<and> compounds st1 = compounds st \<and> sound_shifts st1 = sound_shifts st
    \<and> events st1 = events st \<and> generation st1 = generation st"
  using assms
proof (induction ws arbitrary: st evs surv)
  case Nil
  then show ?case by simp
next
  case (Cons e ws)
  obtain k d where e: "e = (k, d)" by (cases e)
  from Cons.prems(2) e have "map_of surv k = None"
    by (auto simp: map_of_eq_None_iff image_iff)
  with Cons.prems(1) e have look: "map_of (orEmpty (words st)) k = Some d"
    by (simp add: map_add_def)
  show ?case
  proof (cases "fitness d \<le> 0")
    case False
    with look have step: "extinctWord gen k (st, evs) = (st, evs)"
      by (simp add: extinctWord_def)
    from Cons.prems(1,2) e have "orEmpty (words st) = (surv @ [e]) @ ws"
      and "distinct (map fst ((surv @ [e]) @ ws))"
      by simp_all
    moreover from Cons.prems(3) e step
    have "foldl (\<lambda>acc w. extinctWord gen w acc) (st, evs) (map fst ws) = (st1, evs1)"
      by simp
    ultimately have ih: "orEmpty (words st1) = (surv @ [e]) @ filter (\<lambda>e. \<not> isDead e) ws
      \<and> evs1 = evs @ map (extinctEvent gen) (filter isDead ws)
      \<and> orEmpty (extinct st1)
          = (if filter isDead ws = [] then orEmpty (extinct st)
             else lastN 50 (orEmpty (extinct st) @ map (extinctRecord gen) (filter isDead ws)))
      \<and> totalExtinct st1 = totalExtinct st + int (length (filter isDead ws))
      \<and> totalGenerated st1 = totalGenerated st
      \<and> totalCompounds st1 = totalCompounds st
      \<and> totalShifts st1 = totalShifts st
      \<and> compounds st1 = compounds st \<and> sound_shifts st1 = sound_shifts st
      \<and> events st1 = events st \<and> generation st1 = generation st"
      by (rule Cons.IH)
    from False e have "\<not> isDead e" by (simp add: isDead_def)
    with ih show ?thesis by simp
  next
    case True
    let ?ex = "lastN 50 (orEmpty (extinct st) @ [extinctRecord gen e])"
    let ?st = "(incExtinct (st\<lparr>extinct := Some ?ex\<rparr>))\<lparr>words := Some (surv @ ws)\<rparr>"
    from Cons.prems(2) e have "AList.delete k surv = surv" and "AList.delete k ws = ws"
      by (auto intro!: AList.delete_id simp: image_iff)
    moreover have "AList.delete k (surv @ e # ws) = AList.delete k surv @ AList.delete k (e # ws)"
      by (simp add: AList.delete_eq)
    ultimately have del: "AList.delete k (orEmpty (words st)) = surv @ ws"
      using Cons.prems(1) e by simp
    from look True del e
    have step: "extinctWord gen k (st, evs) = (?st, evs @ [extinctEvent gen e])"
      by (simp add: extinctWord_def Let_def extinctRecord_def extinctEvent_def incExtinct_def
          trim_lastN)
    have frame: "orEmpty (extinct ?st) = ?ex" "totalExtinct ?st = totalExtinct st + 1"
      "totalGenerated ?st = totalGenerated st" "totalCompounds ?st = totalCompounds st"
      "totalShifts ?st = totalShifts st" "compounds ?st = compounds st"
      "sound_shifts ?st = sound_shifts st" "events ?st = events st"
      "generation ?st = generation st"
      by (simp_all add: incExtinct_def Let_def totalExtinct_def totalGenerated_def
          totalCompounds_def totalShifts_def)
    from Cons.prems(2) have "orEmpty (words ?st) = surv @ ws"
      and "distinct (map fst (surv @ ws))"
      by simp_all
    moreover from Cons.prems(3) e step
    have "foldl (\<lambda>acc w. extinctWord gen w acc) (?st, evs @ [extinctEvent gen e]) (map fst ws)
            = (st1, evs1)"
      by simp
    ultimately have ih: "orEmpty (words st1) = surv @ filter (\<lambda>e. \<not> isDead e) ws
      \<and> evs1 = (evs @ [extinctEvent gen e]) @ map (extinctEvent gen) (filter isDead ws)
      \<and> orEmpty (extinct st1)
          = (if filter isDead ws = [] then orEmpty (extinct ?st)
             else lastN 50 (orEmpty (extinct ?st) @ map (extinctRecord gen) (filter isDead ws)))
      \<and> totalExtinct st1 = totalExtinct ?st + int (length (filter isDead ws))
      \<and> totalGenerated st1 = totalGenerated ?st
      \<and> totalCompounds st1 = totalCompounds ?st
      \<and> totalShifts st1 = totalShifts ?st
      \<and> compounds st1 = compounds ?st \<and> sound_shifts st1 = sound_shifts ?st
      \<and> events st1 = events ?st \<and> generation st1 = generation ?st"
      by (rule Cons.IH)
    from True e have dead: "isDead e" by (simp add: isDead_def)
    have "orEmpty (extinct st1)
            = lastN 50 (orEmpty (extinct st) @ map (extinctRecord gen) (e # filter isDead ws))"
      using ih frame(1) by (simp add: lastN_lastN_append)
    with ih dead show ?thesis
      unfolding frame by simp
  qed
qed

lemma extinctionStep_result:
  assumes "distinct (map fst (orEmpty (words st)))"
    and "extinctionStep gen st evs = (st1, evs1)"
  shows "orEmpty (words st1) = filter (\<lambda>e. \<not> isDead e) (orEmpty (words st))
    \<and> evs1 = evs @ map (extinctEvent gen) (filter isDead (orEmpty (words st)))
    \<and> orEmpty (extinct st1)
        = (if filter isDead (orEmpty (words st)) = [] then orEmpty (extinct st)
           else lastN 50 (orEmpty (extinct st)
                  @ map (extinctRecord gen) (filter isDead (orEmpty (words st)))))
    \<and> totalExtinct st1 = totalExtinct st + int (length (filter isDead (orEmpty (words st))))
    \<and> totalGenerated st1 = totalGenerated st
    \<and> totalCompounds st1 = totalCompounds st
    \<and> totalShifts st1 = totalShifts st
    \<and> compounds st1 = compounds st \<and> sound_shifts st1 = sound_shifts st
    \<and> events st1 = events st \<and> generation st1 = generation st"
  using extinct_loop[of st "[]" "orEmpty (words st)" gen evs st1 evs1] assms
  by (simp add: extinctionStep_def)

section \<open>What every step leaves as it is\<close>

lemmas total_defs = totalGenerated_def totalExtinct_def totalCompounds_def totalShifts_def

lemma countersLe_refl [simp]: "countersLe st st"
  by (simp add: countersLe_def)

lemma countersLe_trans: "countersLe a b \<Longrightarrow> countersLe b c \<Longrightarrow> countersLe a c"
  by (auto simp: countersLe_def)

lemma ensureFields_frame:
  "countersLe st (ensureFields st)"
  "orEmpty (extinct (ensureFields st)) = orEmpty (extinct st)"
  "orEmpty (sound_shifts (ensureFields st)) = orEmpty (sound_shifts st)"
  "orEmpty (events (ensureFields st)) = orEmpty (events st)"
  "orEmpty (words (ensureFields st)) = orEmpty (words st)"
  "orEmpty (compounds (ensureFields st)) = orEmpty (compounds st)"
  by (simp_all add: ensureFields_def countersLe_def total_defs ensureStats_def)

lemma birthStep_frame:
  assumes "birthStep gen st evs rs = Some (st1, evs1, rs1)"
  shows "countersLe st st1" and "extinct st1 = extinct st"
    and "sound_shifts st1 = sound_shifts st" and "events st1 = events st"
    and "compounds st1 = compounds st"
  using assms
  by (cases rule: birthStep_cases;
      simp add: countersLe_def total_defs incGenerated_def Let_def)+

lemma usageStep_frame:
  assumes "usageStep srt st rs = Some (st1, rs1)"
  shows "countersLe st st1" and "extinct st1 = extinct st"
    and "sound_shifts st1 = sound_shifts st" and "events st1 = events st"
    and "compounds st1 = compounds st"
  using assms
  by (cases rule: usageStep_cases; simp add: countersLe_def total_defs)+

lemma decayStep_frame:
  "countersLe st (decayStep gen st)" "extinct (decayStep gen st) = extinct st"
  "sound_shifts (decayStep gen st) = sound_shifts st" "events (decayStep gen st) = events st"
  "compounds (decayStep gen st) = compounds st"
  by (simp_all add: decayStep_def countersLe_def total_defs)

lemma extinctWord_frame:
  assumes "extinctWord gen w (st, evs) = (st1, evs1)"
  shows "countersLe st st1"
    and "length (orEmpty (extinct st)) \<le> 50 \<longrightarrow> length (orEmpty (extinct st1)) \<le> 50"
    and "sound_shifts st1 = sound_shifts st" and "events st1 = events st"
    and "compounds st1 = compounds st"
  using assms
  by (auto simp: extinctWord_def Let_def countersLe_def total_defs incExtinct_def
      split: option.splits if_splits)

lemma extinct_fold_frame:
  assumes "foldl (\<lambda>acc w. extinctWord gen w acc) (st, evs) ks = (st1, evs1)"
  shows "countersLe st st1
    \<and> (length (orEmpty (extinct st)) \<le> 50 \<longrightarrow> length (orEmpty (extinct st1)) \<le> 50)
    \<and> sound_shifts st1 = sound_shifts st \<and> events st1 = events st
    \<and> compounds st1 = compounds st"
  using assms
proof (induction ks arbitrary: st evs)
  case Nil
  then show ?case by simp
next
  case (Cons k ks)
  obtain st0 evs0 where s: "extinctWord gen k (st, evs) = (st0, evs0)"
    by (cases "extinctWord gen k (st, evs)")
  with Cons.prems have "foldl (\<lambda>acc w. extinctWord gen w acc) (st0, evs0) ks = (st1, evs1)"
    by simp
  from Cons.IH[OF this] extinctWord_frame[OF s] show ?case
    by (auto intro: countersLe_trans)
qed

lemma extinctionStep_frame:
  assumes "extinctionStep gen st evs = (st1, evs1)"
  shows "countersLe st st1"
    and "length (orEmpty (extinct st)) \<le> 50 \<longrightarrow> length (orEmpty (extinct st1)) \<le> 50"
    and "sound_shifts st1 = sound_shifts st" and "events st1 = events st"
    and "compounds st1 = compounds st"
  using extinct_fold_frame[of gen st evs "map fst (orEmpty (words st))" st1 evs1] assms
  by (simp_all add: extinctionStep_def)

lemma shiftStep_frame:
  assumes "shiftStep gen st evs rs = Some (st1, evs1, rs1)"
  shows "countersLe st st1" and "extinct st1 = extinct st"
    and "length (orEmpty (sound_shifts st)) \<le> 30 \<longrightarrow> length (orEmpty (sound_shifts st1)) \<le> 30"
    and "events st1 = events st" and "compounds st1 = compounds st"
  using assms
  by (cases rule: shiftStep_cases;
      simp add: countersLe_def total_defs incShifts_def Let_def)+

lemma compoundStep_frame:
  assumes "compoundStep gen st evs rs = Some (st1, evs1, rs1)"
  shows "countersLe st st1" and "extinct st1 = extinct st"
    and "sound_shifts st1 = sound_shifts st" and "events st1 = events st"
    and "words st1 = words st"
  using assms
  by (cases rule: compoundStep_cases;
      simp add: countersLe_def total_defs incCompounds_def Let_def)+

lemma storeEvents_frame:
  "countersLe st (storeEvents now evs st)" "extinct (storeEvents now evs st) = extinct st"
  "sound_shifts (storeEvents now evs st) = sound_shifts st"
  "words (storeEvents now evs st) = words st"
  "compounds (storeEvents now evs st) = compounds st"
  "length (orEmpty (events (storeEvents now evs st))) \<le> 200"
  by (simp_all add: storeEvents_def countersLe_def total_defs Let_def)

lemma evolveStep_frame:
  assumes "evolveStep srt now st rs = Some (evs, st', rs')"
  shows "countersLe st st'
    \<and> (length (orEmpty (extinct st)) \<le> 50 \<longrightarrow> length (orEmpty (extinct st')) \<le> 50)
    \<and> (length (orEmpty (sound_shifts st)) \<le> 30 \<longrightarrow> length (orEmpty (sound_shifts st')) \<le> 30)
    \<and> length (orEmpty (events st')) \<le> 200"
  using assms
proof (cases rule: evolveStep_cases)
  case (1 gen st1 st2 evs2 rs2 st3 rs3 st5 evs5 st6 evs6 rs6 st7)
  have c1: "countersLe st st1"
    using ensureFields_frame(1)[of st] by (simp add: 1(2) countersLe_def total_defs)
  have e1: "orEmpty (extinct st1) = orEmpty (extinct st)"
    "orEmpty (sound_shifts st1) = orEmpty (sound_shifts st)"
    using ensureFields_frame(2,3)[of st] by (simp_all add: 1(2))
  note b = birthStep_frame[OF 1(3)]
  note u = usageStep_frame[OF 1(4)]
  note d = decayStep_frame[where st = st3 and gen = gen]
  note x = extinctionStep_frame[OF 1(5)]
  note s = shiftStep_frame[OF 1(6)]
  note c = compoundStep_frame[OF 1(7)]
  note t = storeEvents_frame[where st = st7 and now = now and evs = evs]
  from c1 b(1) u(1) d(1) x(1) s(1) c(1) t(1) have "countersLe st st'"
    unfolding 1(8) by (blast intro: countersLe_trans)
  moreover from e1 b(2) u(2) d(2) x(2) s(2) c(2) t(2)
  have "length (orEmpty (extinct st)) \<le> 50 \<longrightarrow> length (orEmpty (extinct st')) \<le> 50"
    unfolding 1(8) by simp
  moreover from e1 b(3) u(3) d(3) x(3) s(3) c(3) t(3)
  have "length (orEmpty (sound_shifts st)) \<le> 30 \<longrightarrow> length (orEmpty (sound_shifts st')) \<le> 30"
    unfolding 1(8) by simp
  moreover from t(6) have "length (orEmpty (events st')) \<le> 200"
    unfolding 1(8) .
  ultimately show ?thesis by blast
qed

section \<open>Counters and history rings over a run\<close>

lemma evolveRun_frame:
  "evolveRun srt nows st rs = Some (evss, st', rs') \<Longrightarrow>
     countersLe st st'
     \<and> (length (orEmpty (extinct st)) \<le> 50 \<longrightarrow> length (orEmpty (extinct st')) \<le> 50)
     \<and> (length (orEmpty (sound_shifts st)) \<le> 30 \<longrightarrow> length (orEmpty (sound_shifts st')) \<le> 30)
     \<and> (length (orEmpty (events st)) \<le> 200 \<longrightarrow> length (orEmpty (events st')) \<le> 200)"
proof (induction nows arbitrary: st rs evss)
  case Nil
  then show ?case by simp
next
  case (Cons now nows)
  from Cons.prems obtain evs st1 rs1 evss1
    where 1: "evolveStep srt now st rs = Some (evs, st1, rs1)"
      and 2: "evolveRun srt nows st1 rs1 = Some (evss1, st', rs')"
    by (auto split: Option.bind_splits)
  from evolveStep_frame[OF 1] Cons.IH[OF 2] show ?case
    by (auto intro: countersLe_trans)
qed

lemma initState_fresh_rings:
  assumes "initState None rs = Some (st, rs1)"
  shows "orEmpty (extinct st) = [] \<and> orEmpty (sound_shifts st) = [] \<and> orEmpty (events st) = []"
  using assms
  by (auto simp: initState_fresh seedState_def emptyState_def Let_def split: Option.bind_splits)

lemma run_example:
  "map_option (\<lambda>(evss, st, rs). (evss, totalGenerated st, totalExtinct st, totalCompounds st,
       totalShifts st, length (orEmpty (extinct st)), length (orEmpty (sound_shifts st)),
       length (orEmpty (events st)), rs))
     (evolveRun insertionSorter [clockA, clockB] emptyState runDraws)
   = Some ([[Birth 1 ''a'' ''old'' (Some ''quality'')], []], 1, 0, 0, 0, 0, 0, 1, [])"
  by code_simp

lemma birth_example:
  "evolveStep insertionSorter clockA emptyState birthDraws
     = Some ([Birth 1 ''a'' ''old'' (Some ''quality'')],
             bornState\<lparr>events := Some [(Birth 1 ''a'' ''old'' (Some ''quality''),
                                          ''2026-01-01T00:00:00.000Z'')]\<rparr>, [])"
  "evolveStep insertionSorter clockB emptyState birthDraws
     = Some ([Birth 1 ''a'' ''old'' (Some ''quality'')],
             bornState\<lparr>events := Some [(Birth 1 ''a'' ''old'' (Some ''quality''),
                                          ''2026-01-01T00:30:00.000Z'')]\<rparr>, [])"
  by code_simp+

text \<open>
  C8. A call of \<^verbatim>\<open>evolveStep\<close> leaves each of the four counters of \<^verbatim>\<open>state.stats\<close>
  equal or greater (a missing counter counts as 0, the value the call gives it), and so
  does every sequence of calls.
\<close>

theorem counters_never_decrease:
  "(evolveStep srt now st rs = Some (evs, st1, rs1) \<longrightarrow>
      totalGenerated st \<le> totalGenerated st1 \<and> totalExtinct st \<le> totalExtinct st1
      \<and> totalCompounds st \<le> totalCompounds st1 \<and> totalShifts st \<le> totalShifts st1)
   \<and> (evolveRun srt nows st rs = Some (evss, st', rs') \<longrightarrow>
      totalGenerated st \<le> totalGenerated st' \<and> totalExtinct st \<le> totalExtinct st'
      \<and> totalCompounds st \<le> totalCompounds st' \<and> totalShifts st \<le> totalShifts st')"
proof (intro conjI impI)
  assume "evolveStep srt now st rs = Some (evs, st1, rs1)"
  from evolveStep_frame[OF this] have c: "countersLe st st1" by simp
  from c show "totalGenerated st \<le> totalGenerated st1" by (simp add: countersLe_def)
  from c show "totalExtinct st \<le> totalExtinct st1" by (simp add: countersLe_def)
  from c show "totalCompounds st \<le> totalCompounds st1" by (simp add: countersLe_def)
  from c show "totalShifts st \<le> totalShifts st1" by (simp add: countersLe_def)
next
  assume "evolveRun srt nows st rs = Some (evss, st', rs')"
  from evolveRun_frame[OF this] have c: "countersLe st st'" by simp
  from c show "totalGenerated st \<le> totalGenerated st'" by (simp add: countersLe_def)
  from c show "totalExtinct st \<le> totalExtinct st'" by (simp add: countersLe_def)
  from c show "totalCompounds st \<le> totalCompounds st'" by (simp add: countersLe_def)
  from c show "totalShifts st \<le> totalShifts st'" by (simp add: countersLe_def)
qed

theorem counters_never_decrease_witness:
  "(\<exists>evs st1 rs1. evolveStep insertionSorter clockA emptyState birthDraws = Some (evs, st1, rs1)
      \<and> totalGenerated emptyState \<le> totalGenerated st1
      \<and> totalShifts emptyState \<le> totalShifts st1)
   \<and> (\<exists>evss st' rs'. evolveRun insertionSorter [clockA, clockB] emptyState runDraws
         = Some (evss, st', rs')
       \<and> totalGenerated st' = 1 \<and> totalGenerated emptyState \<le> totalGenerated st'
       \<and> totalExtinct emptyState \<le> totalExtinct st')"
proof -
  from counters_never_decrease[where srt = insertionSorter and now = clockA
      and st = emptyState and rs = birthDraws] birth_example(1)
  have 1: "\<exists>evs st1 rs1. evolveStep insertionSorter clockA emptyState birthDraws
             = Some (evs, st1, rs1)
      \<and> totalGenerated emptyState \<le> totalGenerated st1
      \<and> totalShifts emptyState \<le> totalShifts st1"
    by blast
  from run_example obtain evss st' rs'
    where r: "evolveRun insertionSorter [clockA, clockB] emptyState runDraws = Some (evss, st', rs')"
      and g: "totalGenerated st' = 1"
    by auto
  from counters_never_decrease[where srt = insertionSorter and nows = "[clockA, clockB]"
      and st = emptyState and rs = runDraws and evss = evss and st' = st' and rs' = rs'] r
  have "totalGenerated emptyState \<le> totalGenerated st'"
    and "totalExtinct emptyState \<le> totalExtinct st'"
    by simp_all
  with r g 1 show ?thesis by blast
qed

section \<open>Two runs of one call\<close>

lemma evolveStep_intro:
  assumes "birthStep (orZero (generation st) + 1)
             ((ensureFields st)\<lparr>generation := Some (orZero (generation st) + 1)\<rparr>) [] rs
           = Some (st2, evs2, rs2)"
    and "usageStep srt st2 rs2 = Some (st3, rs3)"
    and "extinctionStep (orZero (generation st) + 1)
           (decayStep (orZero (generation st) + 1) st3) evs2 = (st5, evs5)"
    and "shiftStep (orZero (generation st) + 1) st5 evs5 rs3 = Some (st6, evs6, rs6)"
    and "compoundStep (orZero (generation st) + 1) st6 evs6 rs6 = Some (st7, evs, rs')"
  shows "evolveStep srt now st rs = Some (evs, storeEvents now evs st7, rs')"
proof -
  have g: "generation (ensureFields st) = generation st"
    by (simp add: ensureFields_def)
  show ?thesis
    unfolding evolveStep_def Let_def g using assms by simp
qed

lemma map_lastN: "map f (lastN n xs) = lastN n (map f xs)"
  by (simp add: lastN_def drop_map)

lemma withoutTimes_storeEvents:
  "withoutTimes (storeEvents now evs st)
     = st\<lparr>events := Some (lastN 200 (map (\<lambda>(e, t). (e, '''')) (orEmpty (events st))
                                      @ map (\<lambda>e. (e, '''')) evs))\<rparr>"
proof -
  have "map (\<lambda>(e, t). (e, '''')) (map (\<lambda>(i, e). (e, now i)) (enumerate 0 evs))
          = map (\<lambda>e. (e, '''')) evs"
    by (induction evs rule: rev_induct) (simp_all add: enumerate_append_eq)
  then have m: "map (\<lambda>(e, t). (e, ''''))
                  (orEmpty (events st) @ map (\<lambda>(i, e). (e, now i)) (enumerate 0 evs))
                = map (\<lambda>(e, t). (e, '''')) (orEmpty (events st)) @ map (\<lambda>e. (e, '''')) evs"
    unfolding map_append by (rule arg_cong)
  have "withoutTimes (storeEvents now evs st)
          = st\<lparr>events := Some (lastN 200 (map (\<lambda>(e, t). (e, ''''))
               (orEmpty (events st) @ map (\<lambda>(i, e). (e, now i)) (enumerate 0 evs))))\<rparr>"
    by (simp add: withoutTimes_def storeEvents_def Let_def trim_lastN map_lastN
        del: map_append map_map)
  then show ?thesis by (simp only: m)
qed

lemma storeEvents_same_clock:
  assumes "\<forall>i < length evs. now2 i = now1 i"
  shows "storeEvents now2 evs st = storeEvents now1 evs st"
proof -
  have "map (\<lambda>(i, e). (e, now2 i)) (enumerate 0 evs) = map (\<lambda>(i, e). (e, now1 i)) (enumerate 0 evs)"
    using assms by (auto simp: enumerate_eq_zip in_set_zip)
  then show ?thesis unfolding storeEvents_def by (simp only:)
qed

lemma stamp_zip:
  "map (\<lambda>(i, e). (e, now i)) (enumerate 0 evs) = zip evs (map now [0..<length evs])"
  by (induction evs rule: rev_induct) (simp_all add: enumerate_append_eq)

lemma storeEvents_events:
  "events (storeEvents now evs st)
     = Some (lastN 200 (orEmpty (events st) @ zip evs (map now [0..<length evs])))"
  unfolding storeEvents_def Let_def trim_lastN stamp_zip by simp

lemma storeEvents_others:
  "storeEvents now2 evs st = (storeEvents now1 evs st)\<lparr>events := events (storeEvents now2 evs st)\<rparr>"
  by (simp add: storeEvents_def Let_def)

text \<open>
  C4, as the code has it. Two calls from the same state with the same draws (and the
  same engine's sort) return the same events and leave the same draws. Their states
  agree in every field but \<^verbatim>\<open>events\<close>, and each log is the log before the call,
  every record with the time it had, followed by the events of the call, each with the
  reading of that call's clock (and trimmed to the last 200): the two states differ
  at most in the \<^verbatim>\<open>time\<close> of the records archived by the call, and they are equal
  when the two clocks give the same readings for these events.
\<close>

theorem evolveStep_same_but_for_time:
  assumes "evolveStep srt now1 st rs = Some (evs, st1, rs1)"
  shows "\<exists>st2. evolveStep srt now2 st rs = Some (evs, st2, rs1)
           \<and> st2 = st1\<lparr>events := events st2\<rparr>
           \<and> events st1
               = Some (lastN 200 (orEmpty (events st) @ zip evs (map now1 [0..<length evs])))
           \<and> events st2
               = Some (lastN 200 (orEmpty (events st) @ zip evs (map now2 [0..<length evs])))
           \<and> withoutTimes st2 = withoutTimes st1
           \<and> ((\<forall>i < length evs. now2 i = now1 i) \<longrightarrow> st2 = st1)"
  using assms
proof (cases rule: evolveStep_cases)
  case (1 gen sa sb evs2 rs2 sc rs3 sd evs5 se evs6 rs6 sf)
  have "orEmpty (events sa) = orEmpty (events st)"
    using ensureFields_frame(4)[of st] by (simp add: 1(2))
  moreover have "events sf = events sa"
    using birthStep_frame(4)[OF 1(3)] usageStep_frame(4)[OF 1(4)]
      decayStep_frame(4)[where st = sc and gen = gen] extinctionStep_frame(4)[OF 1(5)]
      shiftStep_frame(4)[OF 1(6)] compoundStep_frame(4)[OF 1(7)]
    by simp
  ultimately have log: "orEmpty (events sf) = orEmpty (events st)" by simp
  from 1(3,4,5,6,7) have "evolveStep srt now2 st rs = Some (evs, storeEvents now2 evs sf, rs1)"
    unfolding 1(1,2) by (rule evolveStep_intro)
  moreover have "storeEvents now2 evs sf = st1\<lparr>events := events (storeEvents now2 evs sf)\<rparr>"
    unfolding 1(8) by (rule storeEvents_others)
  moreover have "events st1
      = Some (lastN 200 (orEmpty (events st) @ zip evs (map now1 [0..<length evs])))"
    unfolding 1(8) storeEvents_events log by (rule refl)
  moreover have "events (storeEvents now2 evs sf)
      = Some (lastN 200 (orEmpty (events st) @ zip evs (map now2 [0..<length evs])))"
    unfolding storeEvents_events log by (rule refl)
  moreover have "withoutTimes (storeEvents now2 evs sf) = withoutTimes st1"
    unfolding 1(8) by (simp add: withoutTimes_storeEvents)
  moreover have "(\<forall>i < length evs. now2 i = now1 i) \<longrightarrow> storeEvents now2 evs sf = st1"
    unfolding 1(8) by (simp add: storeEvents_same_clock)
  ultimately show ?thesis by blast
qed

lemma die_events_example:
  "map_option (\<lambda>(evs, st, rs). (evs, events st, rs))
     (evolveStep insertionSorter clockA kaState dieDraws)
   = Some ([Birth 6 ''kai'' ''old'' (Some ''quality''), Extinct 6 ''ka'' ''water''],
           Some [(Birth 4 ''ka'' ''water'' (Some ''natural''), ''t0''),
                 (Birth 6 ''kai'' ''old'' (Some ''quality''), ''2026-01-01T00:00:00.000Z''),
                 (Extinct 6 ''ka'' ''water'', ''2026-01-01T00:00:00.000Z'')], [])"
  by code_simp

theorem evolveStep_same_but_for_time_witness:
  "\<exists>evs st1 rs1 st2.
     evolveStep insertionSorter clockA kaState dieDraws = Some (evs, st1, rs1)
     \<and> evolveStep insertionSorter clockB kaState dieDraws = Some (evs, st2, rs1)
     \<and> st2 = st1\<lparr>events := events st2\<rparr>
     \<and> events st1
         = Some [(Birth 4 ''ka'' ''water'' (Some ''natural''), ''t0''),
                 (Birth 6 ''kai'' ''old'' (Some ''quality''), ''2026-01-01T00:00:00.000Z''),
                 (Extinct 6 ''ka'' ''water'', ''2026-01-01T00:00:00.000Z'')]
     \<and> events st2
         = Some [(Birth 4 ''ka'' ''water'' (Some ''natural''), ''t0''),
                 (Birth 6 ''kai'' ''old'' (Some ''quality''), ''2026-01-01T00:30:00.000Z''),
                 (Extinct 6 ''ka'' ''water'', ''2026-01-01T00:30:00.000Z'')]
     \<and> (\<exists>st3. evolveStep insertionSorter clockA kaState dieDraws = Some (evs, st3, rs1)
            \<and> st3 = st1)"
proof -
  from die_events_example obtain evs st1 rs1
    where r: "evolveStep insertionSorter clockA kaState dieDraws = Some (evs, st1, rs1)"
      and e: "evs = [Birth 6 ''kai'' ''old'' (Some ''quality''), Extinct 6 ''ka'' ''water'']"
      and l: "events st1
         = Some [(Birth 4 ''ka'' ''water'' (Some ''natural''), ''t0''),
                 (Birth 6 ''kai'' ''old'' (Some ''quality''), ''2026-01-01T00:00:00.000Z''),
                 (Extinct 6 ''ka'' ''water'', ''2026-01-01T00:00:00.000Z'')]"
    by auto
  from evolveStep_same_but_for_time[OF r, of clockB] obtain st2
    where s: "evolveStep insertionSorter clockB kaState dieDraws = Some (evs, st2, rs1)"
      and o: "st2 = st1\<lparr>events := events st2\<rparr>"
      and t: "events st2
               = Some (lastN 200 (orEmpty (events kaState) @ zip evs (map clockB [0..<length evs])))"
    by blast
  have u: "[0..<length evs] = [0, 1]"
    unfolding e by code_simp
  have "events st2
         = Some [(Birth 4 ''ka'' ''water'' (Some ''natural''), ''t0''),
                 (Birth 6 ''kai'' ''old'' (Some ''quality''), ''2026-01-01T00:30:00.000Z''),
                 (Extinct 6 ''ka'' ''water'', ''2026-01-01T00:30:00.000Z'')]"
    unfolding t u by (simp add: e kaState_def clockB_def)
  moreover from evolveStep_same_but_for_time[OF r, of clockA]
  have "\<exists>st3. evolveStep insertionSorter clockA kaState dieDraws = Some (evs, st3, rs1)
            \<and> st3 = st1"
    by blast
  ultimately show ?thesis using r s o l by blast
qed

text \<open>
  The claim C4 counts the archived event records among what two runs share. Two calls
  from the empty state with the same draws, half an hour apart: the events returned
  are the same, the archived records are not.
\<close>

theorem evolveStep_two_runs_counterexample:
  "evolveStep insertionSorter clockA emptyState birthDraws
     = Some ([Birth 1 ''a'' ''old'' (Some ''quality'')],
             bornState\<lparr>events := Some [(Birth 1 ''a'' ''old'' (Some ''quality''),
                                          ''2026-01-01T00:00:00.000Z'')]\<rparr>, [])
   \<and> evolveStep insertionSorter clockB emptyState birthDraws
     = Some ([Birth 1 ''a'' ''old'' (Some ''quality'')],
             bornState\<lparr>events := Some [(Birth 1 ''a'' ''old'' (Some ''quality''),
                                          ''2026-01-01T00:30:00.000Z'')]\<rparr>, [])
   \<and> evolveStep insertionSorter clockA emptyState birthDraws
     \<noteq> evolveStep insertionSorter clockB emptyState birthDraws"
proof (intro conjI)
  let ?a = "bornState\<lparr>events := Some [(Birth 1 ''a'' ''old'' (Some ''quality''),
                                        ''2026-01-01T00:00:00.000Z'')]\<rparr>"
  let ?b = "bornState\<lparr>events := Some [(Birth 1 ''a'' ''old'' (Some ''quality''),
                                        ''2026-01-01T00:30:00.000Z'')]\<rparr>"
  show "evolveStep insertionSorter clockA emptyState birthDraws
          = Some ([Birth 1 ''a'' ''old'' (Some ''quality'')], ?a, [])"
    by (rule birth_example(1))
  show "evolveStep insertionSorter clockB emptyState birthDraws
          = Some ([Birth 1 ''a'' ''old'' (Some ''quality'')], ?b, [])"
    by (rule birth_example(2))
  have "events ?a \<noteq> events ?b" by simp
  then have "?a \<noteq> ?b" by (metis (no_types))
  then show "evolveStep insertionSorter clockA emptyState birthDraws
               \<noteq> evolveStep insertionSorter clockB emptyState birthDraws"
    unfolding birth_example by (simp only: option.inject prod.inject simp_thms not_False_eq_True)
qed

section \<open>Keys of living words and of compounds\<close>

text \<open>
  The compound step inserts a form only when it is a key of neither dictionary, so it
  keeps the two key sets disjoint.
\<close>

lemma compoundStep_disjoint:
  assumes "compoundStep gen st evs rs = Some (st1, evs1, rs1)"
    and "set (wordKeys st) \<inter> set (compoundKeys st) = {}"
  shows "set (wordKeys st1) \<inter> set (compoundKeys st1) = {}"
  using assms(1)
proof (cases rule: compoundStep_cases)
  case none
  with assms(2) show ?thesis by simp
next
  case (compound compound c cmeaning ps)
  from compound(1) have "compound \<notin> set (wordKeys st)"
    by (simp add: wordKeys_def map_of_eq_None_iff)
  with assms(2) compound(4) show ?thesis
    by (auto simp: wordKeys_def compoundKeys_def incCompounds_def Let_def dom_update)
qed

text \<open>
  C1 says that no form is a key of both the living words and the compounds. The birth
  step (\<^verbatim>\<open>while (state.words[word]) word = genWord()\<close>) and the rename of the sound
  shift (\<^verbatim>\<open>!state.words[newForm]\<close>) look at the living words only. Here a call starts
  with four words and the compound kai, no form in both; the birth step generates
  kai, which is no living word, and inserts it: after the call kai is a key of both.
\<close>

theorem birth_reuses_compound_form:
  "set (wordKeys kaiState) \<inter> set (compoundKeys kaiState) = {}
   \<and> map_option (\<lambda>(evs, st, rs). (evs, wordKeys st, compoundKeys st, rs))
        (evolveStep insertionSorter clockA kaiState kaiDraws)
     = Some ([Birth 10 ''kai'' ''near'' (Some ''quality'')],
             [''ka'', ''ti'', ''nu'', ''mo'', ''kai''], [''kai''], [])
   \<and> set (wordKeys haiState) \<inter> set (compoundKeys haiState) = {}
   \<and> map_option (\<lambda>(evs, st, rs). (evs, wordKeys st, compoundKeys st, rs))
        (evolveStep insertionSorter clockA haiState haiDraws)
     = Some ([Shift 10 ''hai'' ''wai'' ''wind''], [''wai''], [''wai''], [])"
  by code_simp

section \<open>Extinction within a call\<close>

lemma update_set_subset: "set (AList.update k v al) \<subseteq> insert (k, v) (set al)"
  by (induction al) auto

lemma useWord_keys [simp]: "map fst (useWord k ws) = map fst ws"
  by (induction ws) (auto simp: useWord_def)

lemma foldl_useWord_keys [simp]: "map fst (foldl (\<lambda>ws k. useWord k ws) ws ks) = map fst ws"
  by (induction ks arbitrary: ws) simp_all

lemma decay_keys [simp]: "map fst (map (\<lambda>(k, d). (k, decayWord gen d)) ws) = map fst ws"
  by (induction ws) auto

lemma birthStep_words:
  assumes "birthStep gen st evs rs = Some (st1, evs1, rs1)"
  shows "(distinct (wordKeys st) \<longrightarrow> distinct (wordKeys st1))
    \<and> totalExtinct st1 = totalExtinct st
    \<and> filter isExtinctEvent evs1 = filter isExtinctEvent evs"
  using assms
  by (cases rule: birthStep_cases)
     (simp_all add: wordKeys_def distinct_update totalExtinct_def incGenerated_def Let_def)

lemma usageStep_words:
  assumes "usageStep srt st rs = Some (st1, rs1)"
  shows "wordKeys st1 = wordKeys st \<and> totalExtinct st1 = totalExtinct st"
  using assms
  by (cases rule: usageStep_cases) (simp add: wordKeys_def totalExtinct_def)

lemma decayStep_words:
  "wordKeys (decayStep gen st) = wordKeys st \<and> totalExtinct (decayStep gen st) = totalExtinct st"
  by (simp add: decayStep_def wordKeys_def totalExtinct_def split_def)

lemma extinctEvents_all [simp]:
  "filter isExtinctEvent (map (extinctEvent gen) es) = map (extinctEvent gen) es"
  by (induction es) (auto simp: extinctEvent_def)

lemma shiftStep_words:
  assumes "shiftStep gen st evs rs = Some (st1, evs1, rs1)"
  shows "(filter isDead (orEmpty (words st)) = [] \<longrightarrow> filter isDead (orEmpty (words st1)) = [])
    \<and> totalExtinct st1 = totalExtinct st
    \<and> filter isExtinctEvent evs1 = filter isExtinctEvent evs"
  using assms
proof (cases rule: shiftStep_cases)
  case none
  then show ?thesis by simp
next
  case (shifted target newForm data)
  have "filter isDead (AList.update newForm (data\<lparr>history := history data @ [newForm]\<rparr>)
          (AList.delete target (orEmpty (words st)))) = []"
    if a: "filter isDead (orEmpty (words st)) = []"
  proof -
    from map_of_SomeD[OF shifted(1)] a have "\<not> isDead (target, data)"
      by (auto simp: filter_empty_conv)
    then have n: "\<not> isDead (newForm, data\<lparr>history := history data @ [newForm]\<rparr>)"
      by (simp add: isDead_def)
    from a have "\<forall>e \<in> set (AList.delete target (orEmpty (words st))). \<not> isDead e"
      by (auto simp: filter_empty_conv AList.delete_eq)
    moreover have "set (AList.update newForm (data\<lparr>history := history data @ [newForm]\<rparr>)
             (AList.delete target (orEmpty (words st))))
           \<subseteq> insert (newForm, data\<lparr>history := history data @ [newForm]\<rparr>)
               (set (AList.delete target (orEmpty (words st))))"
      by (rule update_set_subset)
    ultimately show ?thesis using n by (auto simp: filter_empty_conv)
  qed
  with shifted(4,5) show ?thesis
    by (simp add: totalExtinct_def incShifts_def Let_def)
qed

lemma compoundStep_words:
  assumes "compoundStep gen st evs rs = Some (st1, evs1, rs1)"
  shows "words st1 = words st \<and> totalExtinct st1 = totalExtinct st
    \<and> filter isExtinctEvent evs1 = filter isExtinctEvent evs
    \<and> extinct st1 = extinct st"
  using assms
  by (cases rule: compoundStep_cases)
     (simp_all add: totalExtinct_def incCompounds_def Let_def)

lemma ensureFields_extinct:
  "totalExtinct ((ensureFields st)\<lparr>generation := g\<rparr>) = totalExtinct st"
  "wordKeys ((ensureFields st)\<lparr>generation := g\<rparr>) = wordKeys st"
  "orEmpty (extinct ((ensureFields st)\<lparr>generation := g\<rparr>)) = orEmpty (extinct st)"
  by (simp_all add: ensureFields_def totalExtinct_def wordKeys_def ensureStats_def)

lemma evolveStep_extinction:
  assumes "evolveStep srt now st rs = Some (evs', st', rs')" and "distinct (wordKeys st)"
  shows "\<exists>st2 evs2 rs2 st3 rs3 dead.
      birthStep (orZero (generation st) + 1)
        ((ensureFields st)\<lparr>generation := Some (orZero (generation st) + 1)\<rparr>) [] rs
        = Some (st2, evs2, rs2)
      \<and> usageStep srt st2 rs2 = Some (st3, rs3)
      \<and> dead = filter isDead (orEmpty (words (decayStep (orZero (generation st) + 1) st3)))
      \<and> filter isExtinctEvent evs' = map (extinctEvent (orZero (generation st) + 1)) dead
      \<and> totalExtinct st' = totalExtinct st + int (length dead)
      \<and> orEmpty (extinct st')
          = (if dead = [] then orEmpty (extinct st)
             else lastN 50 (orEmpty (extinct st)
                    @ map (extinctRecord (orZero (generation st) + 1)) dead))
      \<and> filter isDead (orEmpty (words st')) = []"
  using assms(1)
proof (cases rule: evolveStep_cases)
  case (1 gen st1 st2 evs2 rs2 st3 rs3 st5 evs5 st6 evs6 rs6 st7)
  let ?st4 = "decayStep gen st3"
  let ?dead = "filter isDead (orEmpty (words ?st4))"
  note e = ensureFields_extinct[where st = st and g = "Some gen", folded 1(2)]
  note b = birthStep_words[OF 1(3)] birthStep_frame(2)[OF 1(3)]
  note u = usageStep_words[OF 1(4)] usageStep_frame(2)[OF 1(4)]
  note d = decayStep_words[where st = st3 and gen = gen]
    decayStep_frame(2)[where st = st3 and gen = gen]
  from assms(2) e(2) b(1) u(1) d(1) have "distinct (wordKeys ?st4)" by simp
  then have "distinct (map fst (orEmpty (words ?st4)))" by (simp add: wordKeys_def)
  note x = extinctionStep_result[OF this 1(5)]
  note s = shiftStep_words[OF 1(6)] shiftStep_frame(2)[OF 1(6)]
  note c = compoundStep_words[OF 1(7)]
  note t = storeEvents_frame(2,4)[where st = st7 and now = now and evs = evs']
  have ev: "filter isExtinctEvent evs' = map (extinctEvent gen) ?dead"
    using b(1) x s(1) c by simp
  have tot: "totalExtinct st' = totalExtinct st + int (length ?dead)"
    using e(1) b(1) u(1) d(1) x s(1) c
    by (simp add: 1(8) totalExtinct_def storeEvents_def Let_def)
  have ex: "orEmpty (extinct st')
          = (if ?dead = [] then orEmpty (extinct st)
             else lastN 50 (orEmpty (extinct st) @ map (extinctRecord gen) ?dead))"
    using e(3) b(2) u(2) d(2) x s(2) c t(1) by (simp add: 1(8))
  have "filter isDead (orEmpty (words st5)) = []"
    using x by (simp add: filter_empty_conv)
  with s(1) c t(2) have alive: "filter isDead (orEmpty (words st')) = []"
    by (simp add: 1(8))
  from 1(3,4) ev tot ex alive show ?thesis
    unfolding 1(1,2) by blast
qed

lemma die_example:
  "map_option (\<lambda>(evs, st, rs). (evs, wordKeys st, orEmpty (extinct st), totalExtinct st, rs))
     (evolveStep insertionSorter clockA kaState dieDraws)
   = Some ([Birth 6 ''kai'' ''old'' (Some ''quality''), Extinct 6 ''ka'' ''water''],
           [''kai''],
           [\<lparr>extinct_word = ''ka'', extinct_meaning = ''water'', extinct_born = 4, died = 6,
             extinct_uses = 0\<rparr>], 1, [])"
  by code_simp

text \<open>
  C6. The extinction step, run on the living words as the decay step leaves them,
  removes every word whose fitness is at most 0 and keeps the others, in order; for
  every removed word, in order, it emits an extinct event and pushes an extinct record
  (the ring keeps the last 50), and \<^verbatim>\<open>total_extinct\<close> grows by their number. Within a
  call of \<^verbatim>\<open>evolveStep\<close>: the extinct events returned are those of the words that
  the decay step of this call left with a fitness at most 0, the counter and the ring
  change as said, and no living word has a fitness at most 0 when the call returns.
  The keys of a JavaScript object are distinct, which the model asks of the list.
\<close>

theorem extinction_removes_all:
  "(distinct (wordKeys st) \<and> extinctionStep gen st evs = (st1, evs1) \<longrightarrow>
      orEmpty (words st1) = filter (\<lambda>e. \<not> isDead e) (orEmpty (words st))
      \<and> evs1 = evs @ map (extinctEvent gen) (filter isDead (orEmpty (words st)))
      \<and> orEmpty (extinct st1)
          = (if filter isDead (orEmpty (words st)) = [] then orEmpty (extinct st)
             else lastN 50 (orEmpty (extinct st)
                    @ map (extinctRecord gen) (filter isDead (orEmpty (words st)))))
      \<and> totalExtinct st1 = totalExtinct st + int (length (filter isDead (orEmpty (words st)))))
   \<and> (distinct (wordKeys st) \<and> evolveStep srt now st rs = Some (evs', st', rs') \<longrightarrow>
      (\<exists>st2 evs2 rs2 st3 rs3 dead.
         birthStep (orZero (generation st) + 1)
           ((ensureFields st)\<lparr>generation := Some (orZero (generation st) + 1)\<rparr>) [] rs
           = Some (st2, evs2, rs2)
         \<and> usageStep srt st2 rs2 = Some (st3, rs3)
         \<and> dead = filter isDead (orEmpty (words (decayStep (orZero (generation st) + 1) st3)))
         \<and> filter isExtinctEvent evs' = map (extinctEvent (orZero (generation st) + 1)) dead
         \<and> totalExtinct st' = totalExtinct st + int (length dead)
         \<and> orEmpty (extinct st')
             = (if dead = [] then orEmpty (extinct st)
                else lastN 50 (orEmpty (extinct st)
                       @ map (extinctRecord (orZero (generation st) + 1)) dead))
         \<and> filter isDead (orEmpty (words st')) = []))"
proof (intro conjI impI)
  assume a: "distinct (wordKeys st) \<and> extinctionStep gen st evs = (st1, evs1)"
  then have "distinct (map fst (orEmpty (words st)))" and "extinctionStep gen st evs = (st1, evs1)"
    by (simp_all add: wordKeys_def)
  note x = extinctionStep_result[OF this]
  from x show "orEmpty (words st1) = filter (\<lambda>e. \<not> isDead e) (orEmpty (words st))" by simp
  from x show "evs1 = evs @ map (extinctEvent gen) (filter isDead (orEmpty (words st)))" by simp
  from x show "orEmpty (extinct st1)
          = (if filter isDead (orEmpty (words st)) = [] then orEmpty (extinct st)
             else lastN 50 (orEmpty (extinct st)
                    @ map (extinctRecord gen) (filter isDead (orEmpty (words st)))))"
    by simp
  from x show "totalExtinct st1
          = totalExtinct st + int (length (filter isDead (orEmpty (words st))))"
    by simp
next
  assume "distinct (wordKeys st) \<and> evolveStep srt now st rs = Some (evs', st', rs')"
  then have "evolveStep srt now st rs = Some (evs', st', rs')" and "distinct (wordKeys st)"
    by simp_all
  then show "\<exists>st2 evs2 rs2 st3 rs3 dead.
         birthStep (orZero (generation st) + 1)
           ((ensureFields st)\<lparr>generation := Some (orZero (generation st) + 1)\<rparr>) [] rs
           = Some (st2, evs2, rs2)
         \<and> usageStep srt st2 rs2 = Some (st3, rs3)
         \<and> dead = filter isDead (orEmpty (words (decayStep (orZero (generation st) + 1) st3)))
         \<and> filter isExtinctEvent evs' = map (extinctEvent (orZero (generation st) + 1)) dead
         \<and> totalExtinct st' = totalExtinct st + int (length dead)
         \<and> orEmpty (extinct st')
             = (if dead = [] then orEmpty (extinct st)
                else lastN 50 (orEmpty (extinct st)
                       @ map (extinctRecord (orZero (generation st) + 1)) dead))
         \<and> filter isDead (orEmpty (words st')) = []"
    by (rule evolveStep_extinction)
qed

lemma decayed_example:
  "orEmpty (words (decayStep 6 kaState)) = [(''ka'', kaData\<lparr>fitness := 0\<rparr>)]"
  "orEmpty (extinct (decayStep 6 kaState)) = []"
  by code_simp+

theorem extinction_removes_all_witness:
  "(\<exists>st1 evs1. extinctionStep 6 (decayStep 6 kaState) [] = (st1, evs1)
      \<and> orEmpty (words st1) = [] \<and> evs1 = [Extinct 6 ''ka'' ''water'']
      \<and> orEmpty (extinct st1) = [extinctRecord 6 (''ka'', kaData)])
   \<and> (\<exists>evs st' rs'. evolveStep insertionSorter clockA kaState dieDraws = Some (evs, st', rs')
      \<and> filter isExtinctEvent evs = [Extinct 6 ''ka'' ''water'']
      \<and> wordKeys st' = [''kai'']
      \<and> totalExtinct st' = totalExtinct kaState + 1
      \<and> filter isDead (orEmpty (words st')) = [])"
proof -
  obtain st1 evs1 where x: "extinctionStep 6 (decayStep 6 kaState) [] = (st1, evs1)"
    by (cases "extinctionStep 6 (decayStep 6 kaState) []")
  have "distinct (wordKeys (decayStep 6 kaState))"
    by (simp add: wordKeys_def decayed_example)
  with extinction_removes_all[where st = "decayStep 6 kaState" and gen = 6 and evs = "[]"
      and ?st1.0 = st1 and ?evs1.0 = evs1] x
  have "orEmpty (words st1) = [] \<and> evs1 = [Extinct 6 ''ka'' ''water'']
      \<and> orEmpty (extinct st1) = [extinctRecord 6 (''ka'', kaData)]"
    by (simp add: decayed_example isDead_def extinctEvent_def extinctRecord_def kaData_def)
  with x have 1: "\<exists>st1 evs1. extinctionStep 6 (decayStep 6 kaState) [] = (st1, evs1)
      \<and> orEmpty (words st1) = [] \<and> evs1 = [Extinct 6 ''ka'' ''water'']
      \<and> orEmpty (extinct st1) = [extinctRecord 6 (''ka'', kaData)]"
    by blast
  from die_example obtain evs st' rs'
    where r: "evolveStep insertionSorter clockA kaState dieDraws = Some (evs, st', rs')"
      and v: "evs = [Birth 6 ''kai'' ''old'' (Some ''quality''), Extinct 6 ''ka'' ''water'']"
        "wordKeys st' = [''kai'']" "totalExtinct st' = 1"
    by auto
  have "distinct (wordKeys kaState)"
    by (simp add: wordKeys_def kaState_def kaWords_def)
  with extinction_removes_all[where st = kaState and srt = insertionSorter and now = clockA
      and rs = dieDraws and evs' = evs and st' = st' and rs' = rs'] r
  have "filter isDead (orEmpty (words st')) = []"
    by blast
  moreover have "totalExtinct kaState = 0"
    by (simp add: totalExtinct_def kaState_def)
  ultimately show ?thesis using r v 1 by auto
qed

section \<open>A sole word at the extinction threshold\<close>

lemma usage_sole:
  assumes "usageStep srt st rs = Some (st1, rs1)" and "orEmpty (words st) = [(w, d)]"
  shows "orEmpty (words st1) = [(w, d\<lparr>uses := uses d + 1, fitness := min 2 (fitness d + 0.1)\<rparr>)]"
  using assms(1)
proof (cases rule: usageStep_cases)
  case (1 shuffled)
  from 1(2) assms(2) have "shuffled = [w]" by simp
  with 1(3) assms(2) show ?thesis by (simp add: useWord_def)
qed

lemma mset_pair:
  assumes "mset sh = mset [a, b]"
  shows "sh = [a, b] \<or> sh = [b, a]"
proof -
  from assms have "length sh = 2" by (metis length_Cons list.size(3) mset_eq_length numeral_2_eq_2)
  then obtain x y where s: "sh = [x, y]"
    by (metis (no_types, opaque_lifting) length_0_conv length_Suc_conv numeral_2_eq_2)
  with assms show ?thesis
    by (auto simp: add_eq_conv_ex)
qed

lemma usage_pair:
  assumes "usageStep srt st rs = Some (st1, rs1)"
    and "orEmpty (words st) = [(w, d), (w2, d2)]" and "w \<noteq> w2"
    and "srt [w, w2] rs = Some (sh, rs3)"
  shows "orEmpty (words st1)
           = (if hd sh = w
              then [(w, d\<lparr>uses := uses d + 1, fitness := min 2 (fitness d + 0.1)\<rparr>), (w2, d2)]
              else [(w, d), (w2, d2\<lparr>uses := uses d2 + 1, fitness := min 2 (fitness d2 + 0.1)\<rparr>)])"
  using assms(1)
proof (cases rule: usageStep_cases)
  case (1 shuffled)
  from 1(1) assms(2,4) have e: "shuffled = sh" by simp
  from 1(2) assms(2) have "sh = [w, w2] \<or> sh = [w2, w]"
    unfolding e by (intro mset_pair) simp
  with 1(3) assms(2,3) show ?thesis
    unfolding e by (auto simp: useWord_def)
qed

lemma shiftStep_sole:
  assumes "shiftStep gen st evs rs = Some (st1, evs1, rs1)" and "orEmpty (words st) = [(w, d)]"
  shows "\<exists>k h. orEmpty (words st1) = [(k, d\<lparr>history := h\<rparr>)]"
  using assms(1)
proof (cases rule: shiftStep_cases)
  case none
  with assms(2) have "orEmpty (words st1) = [(w, d\<lparr>history := history d\<rparr>)]" by simp
  then show ?thesis by blast
next
  case (shifted target newForm data)
  from shifted(1) assms(2) have "target = w" and "data = d"
    by (auto split: if_splits)
  with shifted(4) assms(2)
  have "orEmpty (words st1) = [(newForm, d\<lparr>history := history d @ [newForm]\<rparr>)]"
    by (simp add: incShifts_def Let_def)
  then show ?thesis by blast
qed

lemma update_new: "k \<notin> fst ` set al \<Longrightarrow> AList.update k v al = al @ [(k, v)]"
  by (induction al) auto

lemma shiftStep_member:
  assumes "shiftStep gen st evs rs = Some (st1, evs1, rs1)"
    and "distinct (map fst (orEmpty (words st)))" and "(k, d) \<in> set (orEmpty (words st))"
  shows "\<exists>k' h. (k', d\<lparr>history := h\<rparr>) \<in> set (orEmpty (words st1))"
  using assms(1)
proof (cases rule: shiftStep_cases)
  case none
  with assms(3) have "(k, d\<lparr>history := history d\<rparr>) \<in> set (orEmpty (words st1))" by simp
  then show ?thesis by blast
next
  case (shifted target newForm data)
  let ?ws = "AList.delete target (orEmpty (words st))"
  let ?d = "data\<lparr>history := history data @ [newForm]\<rparr>"
  from shifted(2) have n: "newForm \<notin> fst ` set ?ws"
    using dom_delete_subset[of target "orEmpty (words st)"]
    by (auto simp: map_of_eq_None_iff)
  have w1: "orEmpty (words st1) = AList.update newForm ?d ?ws"
    using shifted(4) by (simp add: incShifts_def Let_def)
  have u: "set (AList.update newForm ?d ?ws) = insert (newForm, ?d) (set ?ws)"
    using update_new[OF n] by simp
  show ?thesis
  proof (cases "k = target")
    case True
    with assms(2,3) shifted(1) have "d = data" by (simp add: map_of_eq_Some_iff)
    with w1 u have "(newForm, d\<lparr>history := history data @ [newForm]\<rparr>) \<in> set (orEmpty (words st1))"
      by simp
    then show ?thesis by blast
  next
    case False
    with assms(3) have "(k, d) \<in> set ?ws" by (auto simp: AList.delete_eq)
    with w1 u have "(k, d\<lparr>history := history d\<rparr>) \<in> set (orEmpty (words st1))" by simp
    then show ?thesis by blast
  qed
qed

lemma birthStep_fired:
  assumes "birthStep gen st evs rs = Some (st1, evs1, rs1)" and "\<not> hd rs < 0.7"
  shows "st1 = st \<and> evs1 = evs"
  using assms
  by (auto simp: birthStep_def random_def split: Option.bind_splits list.splits if_splits)

lemma decayStep_words_eq:
  "orEmpty (words (decayStep gen st)) = map (\<lambda>(k, d). (k, decayWord gen d)) (orEmpty (words st))"
  by (simp add: decayStep_def)

text \<open>
  C2, as the code has it. The state has one living word \<open>w\<close>, of fitness 0.05, never
  used, of an age between 1 and 3 in the new generation (so that its decay is 0.05).
  The usage step uses \<^verbatim>\<open>Math.max(1, ...)\<close> words, the first of the shuffled keys.
  Without a birth the only key is \<open>w\<close>: the word is used, its fitness goes to 0.15 and
  decays to 0.10, and it lives on (under its form, or the form a sound shift gives
  it), with nothing recorded extinct. The same holds after a birth when the shuffle
  puts \<open>w\<close> first. When the shuffle puts the newborn first, \<open>w\<close> decays to 0: it is
  removed, with its event, its record and the counter, and the newborn is the one
  living word.
\<close>

theorem sole_word_boundary:
  assumes sole: "orEmpty (words st) = [(w, d)]" "fitness d = 0.05" "uses d = 0"
    and age: "1 \<le> orZero (generation st) + 1 - born d" "orZero (generation st) + 1 - born d \<le> 3"
    and call: "evolveStep srt now st rs = Some (evs, st', rs')"
    and birth: "birthStep (orZero (generation st) + 1)
                  ((ensureFields st)\<lparr>generation := Some (orZero (generation st) + 1)\<rparr>) [] rs
                = Some (st2, evs2, rs2)"
    and shuffle: "srt (wordKeys st2) rs2 = Some (sh, rs3)"
  shows "(\<not> hd rs < 0.7 \<longrightarrow> hd sh = w)
    \<and> (hd sh = w \<longrightarrow>
          (\<exists>k h. (k, d\<lparr>uses := 1, fitness := 0.1, history := h\<rparr>) \<in> set (orEmpty (words st')))
          \<and> filter isExtinctEvent evs = []
          \<and> orEmpty (extinct st') = orEmpty (extinct st)
          \<and> totalExtinct st' = totalExtinct st)
    \<and> (hd sh \<noteq> w \<longrightarrow>
          filter isExtinctEvent evs = [Extinct (orZero (generation st) + 1) w (meaning d)]
          \<and> orEmpty (extinct st')
              = lastN 50 (orEmpty (extinct st)
                  @ [extinctRecord (orZero (generation st) + 1) (w, d)])
          \<and> totalExtinct st' = totalExtinct st + 1
          \<and> (\<exists>k d'. orEmpty (words st') = [(k, d')] \<and> born d' = orZero (generation st) + 1))"
  using call
proof (cases rule: evolveStep_cases)
  case (1 gen sa sb evs2' rs2' sc rs3' sd evs5 se evs6 rs6 sf)
  from 1(3) birth have same: "sb = st2" "evs2' = evs2" "rs2' = rs2"
    unfolding 1(1,2) by simp_all
  note usage = 1(4)[unfolded same]
  have wa: "orEmpty (words sa) = [(w, d)]"
    using sole(1) by (simp add: 1(2) ensureFields_def)
  have da: "distinct (wordKeys st)"
    using sole(1) by (simp add: wordKeys_def)
  from evolveStep_extinction[OF call da] birth usage obtain dead
    where dead: "dead = filter isDead (orEmpty (words (decayStep gen sc)))"
      and ev: "filter isExtinctEvent evs = map (extinctEvent gen) dead"
      and tot: "totalExtinct st' = totalExtinct st + int (length dead)"
      and ring: "orEmpty (extinct st')
          = (if dead = [] then orEmpty (extinct st)
             else lastN 50 (orEmpty (extinct st) @ map (extinctRecord gen) dead))"
    unfolding 1(1) by auto
  have final: "orEmpty (words st') = orEmpty (words se)"
    using compoundStep_words[OF 1(7)] by (simp add: 1(8) storeEvents_def Let_def)
  from usage shuffle obtain shuffled
    where sh: "mset sh = mset (map fst (orEmpty (words st2)))"
    by (cases rule: usageStep_cases) (auto simp: wordKeys_def)
  have dused: "decayWord gen (d\<lparr>uses := uses d + 1, fitness := min 2 (fitness d + 0.1)\<rparr>)
                 = d\<lparr>uses := 1, fitness := 0.1\<rparr>"
    using sole(2,3) age by (simp add: decayWord_def Let_def 1(1))
  have dunused: "decayWord gen d = d\<lparr>fitness := 0\<rparr>"
    using sole(2,3) age by (simp add: decayWord_def Let_def 1(1))
  have alive: "\<not> isDead (w, d\<lparr>uses := 1, fitness := 0.1\<rparr>)"
    by (simp add: isDead_def)
  from birth[folded 1(1), folded 1(2)] show ?thesis
  proof (cases rule: birthStep_cases)
    case none
    from none wa have w2: "orEmpty (words st2) = [(w, d)]" by simp
    with sh have hd: "hd sh = w" by simp
    from usage_sole[OF usage w2] dused
    have w4: "orEmpty (words (decayStep gen sc)) = [(w, d\<lparr>uses := 1, fitness := 0.1\<rparr>)]"
      by (simp add: decayStep_words_eq)
    with dead alive have nodead: "dead = []" by simp
    have "distinct (map fst (orEmpty (words (decayStep gen sc))))"
      by (simp add: w4)
    from extinctionStep_result[OF this 1(5)] w4 alive
    have "orEmpty (words sd) = [(w, d\<lparr>uses := 1, fitness := 0.1\<rparr>)]" by simp
    from shiftStep_sole[OF 1(6) this] final
    have "\<exists>k h. (k, d\<lparr>uses := 1, fitness := 0.1, history := h\<rparr>) \<in> set (orEmpty (words st'))"
      by auto
    with hd nodead ev tot ring show ?thesis by simp
  next
    case (born word concept)
    from born(1) wa have ne: "word \<noteq> w" by (auto split: if_splits)
    let ?nb = "newborn gen concept word"
    from born(3) wa ne have w2: "orEmpty (words st2) = [(w, d), (word, ?nb)]"
      by (simp add: incGenerated_def Let_def)
    have fired: "hd rs < 0.7"
    proof (rule ccontr)
      assume "\<not> hd rs < 0.7"
      from birthStep_fired[OF birth this] have "st2 = sa" by (simp add: 1(1,2))
      with w2 wa show False by simp
    qed
    from shuffle w2 have s2: "srt [w, word] rs2 = Some (sh, rs3)"
      by (simp add: wordKeys_def)
    have nbd: "decayWord gen ?nb = ?nb"
      "decayWord gen (?nb\<lparr>uses := uses ?nb + 1, fitness := min 2 (fitness ?nb + 0.1)\<rparr>)
         = ?nb\<lparr>uses := 1, fitness := 0.6\<rparr>"
      by (simp_all add: decayWord_def newborn_def)
    have nbalive: "\<not> isDead (word, ?nb)" "\<not> isDead (word, ?nb\<lparr>uses := 1, fitness := 0.6\<rparr>)"
      by (simp_all add: isDead_def newborn_def)
    note w3 = usage_pair[OF usage w2 ne[symmetric] s2]
    show ?thesis
    proof (cases "hd sh = w")
      case True
      with w3 dused nbd
      have w4: "orEmpty (words (decayStep gen sc))
                  = [(w, d\<lparr>uses := 1, fitness := 0.1\<rparr>), (word, ?nb)]"
        by (simp add: decayStep_words_eq)
      with dead alive nbalive have nodead: "dead = []" by simp
      have "distinct (map fst (orEmpty (words (decayStep gen sc))))"
        using ne by (simp add: w4)
      from extinctionStep_result[OF this 1(5)] w4 alive nbalive
      have w5: "orEmpty (words sd) = [(w, d\<lparr>uses := 1, fitness := 0.1\<rparr>), (word, ?nb)]"
        by simp
      then have "distinct (map fst (orEmpty (words sd)))"
        and "(w, d\<lparr>uses := 1, fitness := 0.1\<rparr>) \<in> set (orEmpty (words sd))"
        using ne by simp_all
      from shiftStep_member[OF 1(6) this] final
      have "\<exists>k h. (k, d\<lparr>uses := 1, fitness := 0.1, history := h\<rparr>) \<in> set (orEmpty (words st'))"
        by auto
      with True fired nodead ev tot ring show ?thesis by simp
    next
      case False
      with w3 dunused nbd
      have w4: "orEmpty (words (decayStep gen sc))
                  = [(w, d\<lparr>fitness := 0\<rparr>), (word, ?nb\<lparr>uses := 1, fitness := 0.6\<rparr>)]"
        by (simp add: decayStep_words_eq)
      have isdead: "isDead (w, d\<lparr>fitness := 0\<rparr>)" by (simp add: isDead_def)
      with dead w4 nbalive have thedead: "dead = [(w, d\<lparr>fitness := 0\<rparr>)]" by simp
      have "distinct (map fst (orEmpty (words (decayStep gen sc))))"
        using ne by (simp add: w4)
      from extinctionStep_result[OF this 1(5)] w4 isdead nbalive
      have "orEmpty (words sd) = [(word, ?nb\<lparr>uses := 1, fitness := 0.6\<rparr>)]"
        by simp
      from shiftStep_sole[OF 1(6) this] final
      have "\<exists>k d'. orEmpty (words st') = [(k, d')] \<and> born d' = gen"
        by (auto simp: newborn_def)
      with False fired thedead ev tot ring show ?thesis
        by (simp add: extinctEvent_def extinctRecord_def 1(1))
    qed
  qed
qed

lemma die_phases:
  "birthStep (orZero (generation kaState) + 1)
     ((ensureFields kaState)\<lparr>generation := Some (orZero (generation kaState) + 1)\<rparr>) [] dieDraws
   = Some (kaiBornState, [Birth 6 ''kai'' ''old'' (Some ''quality'')], [0.9, 0.9, 0.9])"
  "insertionSorter (wordKeys kaiBornState) [0.9, 0.9, 0.9] = Some ([''kai'', ''ka''], [0.9, 0.9])"
  by code_simp+

theorem sole_word_boundary_witness:
  "\<exists>evs st' rs'. evolveStep insertionSorter clockA kaState dieDraws = Some (evs, st', rs')
     \<and> filter isExtinctEvent evs = [Extinct 6 ''ka'' ''water'']
     \<and> orEmpty (extinct st') = [extinctRecord 6 (''ka'', kaData)]
     \<and> totalExtinct st' = totalExtinct kaState + 1"
proof -
  from die_example obtain evs st' rs'
    where r: "evolveStep insertionSorter clockA kaState dieDraws = Some (evs, st', rs')"
    by auto
  have s: "orEmpty (words kaState) = [(''ka'', kaData)]" "fitness kaData = 0.05" "uses kaData = 0"
    "1 \<le> orZero (generation kaState) + 1 - born kaData"
    "orZero (generation kaState) + 1 - born kaData \<le> 3"
    by (simp_all add: kaState_def kaWords_def kaData_def)
  have g: "orZero (generation kaState) + 1 = 6" "meaning kaData = ''water''"
    "orEmpty (extinct kaState) = []"
    by (simp_all add: kaState_def kaData_def)
  from sole_word_boundary[OF s r die_phases] g
  have "filter isExtinctEvent evs = [Extinct 6 ''ka'' ''water'']
     \<and> orEmpty (extinct st') = [extinctRecord 6 (''ka'', kaData)]
     \<and> totalExtinct st' = totalExtinct kaState + 1"
    by simp
  with r show ?thesis by blast
qed

text \<open>
  The claim C2 says that the word is removed whatever the draws. On \<open>kaState\<close> (one
  word, ka, of fitness 0.05, never used, born at generation 4, the call makes
  generation 6) a call with no birth uses ka: it ends with fitness 0.10, alive, and
  the extinct list stays empty.
\<close>

theorem sole_word_extinct_counterexample:
  "orEmpty (words kaState) = [(''ka'', kaData)]
   \<and> fitness kaData = 0.05 \<and> uses kaData = 0
   \<and> orZero (generation kaState) + 1 - born kaData = 2
   \<and> extinct kaState = Some []
   \<and> evolveStep insertionSorter clockA kaState quietDraws
       = Some ([], kaState\<lparr>words := Some [(''ka'', kaData\<lparr>uses := 1, fitness := 0.1\<rparr>)],
                            generation := Some 6\<rparr>, [])"
  by code_simp

section \<open>The history rings\<close>

lemma extinctWord_push:
  assumes "extinctWord gen w (st, evs) = (st1, evs1)"
  shows "(evs1 = evs \<and> st1 = st)
    \<or> (length (orEmpty (extinct st1)) \<le> 50 \<and> (\<exists>g k m. evs1 = evs @ [Extinct g k m]))"
  using assms
  by (auto simp: extinctWord_def Let_def incExtinct_def split: option.splits if_splits)

lemma extinct_fold_push:
  assumes "foldl (\<lambda>acc w. extinctWord gen w acc) (st, evs) ks = (st1, evs1)"
  shows "filter isShiftEvent evs1 = filter isShiftEvent evs
    \<and> ((evs1 = evs \<and> extinct st1 = extinct st)
        \<or> (length (orEmpty (extinct st1)) \<le> 50 \<and> filter isExtinctEvent evs1 \<noteq> []))"
  using assms
proof (induction ks arbitrary: st evs)
  case Nil
  then show ?case by simp
next
  case (Cons k ks)
  obtain st0 evs0 where s: "extinctWord gen k (st, evs) = (st0, evs0)"
    by (cases "extinctWord gen k (st, evs)")
  with Cons.prems have f: "foldl (\<lambda>acc w. extinctWord gen w acc) (st0, evs0) ks = (st1, evs1)"
    by simp
  note ih = Cons.IH[OF f]
  from extinctWord_push[OF s] show ?case
  proof
    assume "evs0 = evs \<and> st0 = st"
    with ih show ?thesis by simp
  next
    assume p: "length (orEmpty (extinct st0)) \<le> 50 \<and> (\<exists>g k m. evs0 = evs @ [Extinct g k m])"
    then obtain g k' m where e: "evs0 = evs @ [Extinct g k' m]" by blast
    from ih e have 1: "filter isShiftEvent evs1 = filter isShiftEvent evs" by simp
    from ih[THEN conjunct2]
    have "length (orEmpty (extinct st1)) \<le> 50 \<and> filter isExtinctEvent evs1 \<noteq> []"
    proof
      assume "evs1 = evs0 \<and> extinct st1 = extinct st0"
      with p e show ?thesis by simp
    next
      assume "length (orEmpty (extinct st1)) \<le> 50 \<and> filter isExtinctEvent evs1 \<noteq> []"
      then show ?thesis .
    qed
    with 1 show ?thesis by simp
  qed
qed

lemma shiftStep_push:
  assumes "shiftStep gen st evs rs = Some (st1, evs1, rs1)"
  shows "(evs1 = evs \<and> sound_shifts st1 = sound_shifts st)
    \<or> (length (orEmpty (sound_shifts st1)) \<le> 30 \<and> filter isShiftEvent evs1 \<noteq> [])"
  using assms
  by (cases rule: shiftStep_cases) (simp_all add: incShifts_def Let_def)

lemma birthStep_shift_events:
  assumes "birthStep gen st evs rs = Some (st1, evs1, rs1)"
  shows "filter isShiftEvent evs1 = filter isShiftEvent evs"
  using assms by (cases rule: birthStep_cases) simp_all

lemma compoundStep_shift_events:
  assumes "compoundStep gen st evs rs = Some (st1, evs1, rs1)"
  shows "filter isShiftEvent evs1 = filter isShiftEvent evs"
  using assms by (cases rule: compoundStep_cases) simp_all

text \<open>
  One call: the event log ends within its bound; a ring that the call pushes to (an
  extinct or a shift event is returned) ends within its bound; a ring that the call
  does not push to is left as it is, whatever its length.
\<close>

lemma evolveStep_rings:
  assumes "evolveStep srt now st rs = Some (evs, st', rs')"
  shows "length (orEmpty (events st')) \<le> 200
    \<and> (filter isExtinctEvent evs \<noteq> [] \<longrightarrow> length (orEmpty (extinct st')) \<le> 50)
    \<and> (filter isShiftEvent evs \<noteq> [] \<longrightarrow> length (orEmpty (sound_shifts st')) \<le> 30)
    \<and> (filter isExtinctEvent evs = [] \<longrightarrow> orEmpty (extinct st') = orEmpty (extinct st))
    \<and> (filter isShiftEvent evs = [] \<longrightarrow> orEmpty (sound_shifts st') = orEmpty (sound_shifts st))"
  using assms
proof (cases rule: evolveStep_cases)
  case (1 gen st1 st2 evs2 rs2 st3 rs3 st5 evs5 st6 evs6 rs6 st7)
  have e1: "orEmpty (extinct st1) = orEmpty (extinct st)"
    "orEmpty (sound_shifts st1) = orEmpty (sound_shifts st)"
    using ensureFields_frame(2,3)[of st] by (simp_all add: 1(2))
  note b = birthStep_frame[OF 1(3)]
  note u = usageStep_frame[OF 1(4)]
  note d = decayStep_frame[where st = st3 and gen = gen]
  note x = extinctionStep_frame[OF 1(5)]
  note s = shiftStep_frame[OF 1(6)]
  note c = compoundStep_frame[OF 1(7)]
  note t = storeEvents_frame[where st = st7 and now = now and evs = evs]
  have before: "orEmpty (extinct (decayStep gen st3)) = orEmpty (extinct st)"
    "orEmpty (sound_shifts st5) = orEmpty (sound_shifts st)"
    using e1 b(2,3) u(2,3) d(2,3) x(3) by simp_all
  have after: "extinct st' = extinct st5" "sound_shifts st' = sound_shifts st6"
    using s(2) c(2,3) t(2,3) by (simp_all add: 1(8))
  have bx: "filter isExtinctEvent evs2 = []" "filter isShiftEvent evs2 = []"
    using birthStep_words[OF 1(3)] birthStep_shift_events[OF 1(3)] by simp_all
  have ex: "filter isExtinctEvent evs = filter isExtinctEvent evs5"
    using shiftStep_words[OF 1(6)] compoundStep_words[OF 1(7)] by simp
  have sh: "filter isShiftEvent evs = filter isShiftEvent evs6"
    using compoundStep_shift_events[OF 1(7)] by simp
  from 1(5) have fold: "foldl (\<lambda>acc w. extinctWord gen w acc) (decayStep gen st3, evs2)
      (map fst (orEmpty (words (decayStep gen st3)))) = (st5, evs5)"
    by (simp add: extinctionStep_def)
  note p = extinct_fold_push[OF fold]
  note q = shiftStep_push[OF 1(6)]
  from p bx(2) have s5: "filter isShiftEvent evs5 = []" by simp
  have "length (orEmpty (events st')) \<le> 200"
    using t(6) by (simp add: 1(8))
  moreover have "filter isExtinctEvent evs \<noteq> [] \<longrightarrow> length (orEmpty (extinct st')) \<le> 50"
    using p bx(1) ex after(1) by auto
  moreover have "filter isShiftEvent evs \<noteq> [] \<longrightarrow> length (orEmpty (sound_shifts st')) \<le> 30"
    using q s5 sh after(2) by auto
  moreover have "filter isExtinctEvent evs = []
      \<longrightarrow> orEmpty (extinct st') = orEmpty (extinct st)"
    using p ex after(1) before(1) by auto
  moreover have "filter isShiftEvent evs = []
      \<longrightarrow> orEmpty (sound_shifts st') = orEmpty (sound_shifts st)"
    using q sh after(2) before(2) by auto
  ultimately show ?thesis by blast
qed

lemma evolveRun_events:
  assumes "evolveRun srt nows st rs = Some (evss, st', rs')" and "nows \<noteq> []"
  shows "length (orEmpty (events st')) \<le> 200"
proof -
  from assms(2) obtain now rest where n: "nows = now # rest" by (cases nows) auto
  with assms(1) obtain evs st1 rs1 evss1
    where 1: "evolveStep srt now st rs = Some (evs, st1, rs1)"
      and 2: "evolveRun srt rest st1 rs1 = Some (evss1, st', rs')"
    by (auto split: Option.bind_splits)
  from evolveStep_frame[OF 1] evolveRun_frame[OF 2] show ?thesis by simp
qed

lemma fresh_run_example:
  "(initState None (seedDraws @ quietDraws)) \<bind>
     (\<lambda>(st, rs). map_option (\<lambda>(evss, st', rs'). evss) (evolveRun insertionSorter [clockA] st rs))
   = Some [[]]"
  by code_simp

lemma full_ring_example:
  "map_option (\<lambda>(evs, st, rs). (evs, length (orEmpty (extinct st)), last (orEmpty (extinct st))))
     (evolveStep insertionSorter clockA fullRingState dieDraws)
   = Some ([Birth 6 ''kai'' ''old'' (Some ''quality''), Extinct 6 ''ka'' ''water''], 50,
           \<lparr>extinct_word = ''ka'', extinct_meaning = ''water'', extinct_born = 4, died = 6,
             extinct_uses = 0\<rparr>)"
  "map_option (\<lambda>(evs, st, rs). (evs, length (orEmpty (sound_shifts st)),
       last (orEmpty (sound_shifts st))))
     (evolveStep insertionSorter clockA fullShiftState haiDraws)
   = Some ([Shift 10 ''hai'' ''wai'' ''wind''], 30,
           \<lparr>shift_gen = 10, shift_from = ''hai'', shift_to = ''wai'', shift_meaning = ''wind''\<rparr>)"
  by code_simp+

lemma big_example:
  "evolveRun insertionSorter [clockA, clockB] bigState (quietDraws @ quietDraws)
     = Some ([[], []],
             bigState\<lparr>words := Some [(''ka'', kaData\<lparr>uses := 2, fitness := 0.15\<rparr>)],
                       generation := Some 7\<rparr>, [])"
  "evolveStep insertionSorter clockA bigState quietDraws
     = Some ([], bigState\<lparr>words := Some [(''ka'', kaData\<lparr>uses := 1, fitness := 0.1\<rparr>)],
                           generation := Some 6\<rparr>, [])"
  by code_simp+

text \<open>
  C5, as the code has it. The event log is trimmed at the end of every call: after
  one call or more it has at most 200 records, from any state. The extinct ring and
  the sound-shift ring are trimmed only where a record is pushed: a call that records
  an extinction leaves at most 50 extinct records, a call that records a shift at most
  30 sound-shift records, and a call that pushes nothing to a ring leaves it as it
  was, whatever its length. So the bounds 50 and 30 hold after any number of calls
  from a state that is within them, and from a fresh start, whose lists are empty.
\<close>

theorem ring_bounds:
  "(evolveRun srt nows st rs = Some (evss, st', rs')
      \<and> length (orEmpty (extinct st)) \<le> 50 \<and> length (orEmpty (sound_shifts st)) \<le> 30
      \<and> length (orEmpty (events st)) \<le> 200 \<longrightarrow>
      length (orEmpty (extinct st')) \<le> 50 \<and> length (orEmpty (sound_shifts st')) \<le> 30
      \<and> length (orEmpty (events st')) \<le> 200)
   \<and> (initState None rs0 = Some (st, rs) \<and> evolveRun srt nows st rs = Some (evss, st', rs') \<longrightarrow>
      length (orEmpty (extinct st')) \<le> 50 \<and> length (orEmpty (sound_shifts st')) \<le> 30
      \<and> length (orEmpty (events st')) \<le> 200)
   \<and> (evolveRun srt nows st rs = Some (evss, st', rs') \<and> nows \<noteq> [] \<longrightarrow>
      length (orEmpty (events st')) \<le> 200)
   \<and> (evolveStep srt now st rs = Some (evs, st1, rs1) \<longrightarrow>
      length (orEmpty (events st1)) \<le> 200
      \<and> (filter isExtinctEvent evs \<noteq> [] \<longrightarrow> length (orEmpty (extinct st1)) \<le> 50)
      \<and> (filter isShiftEvent evs \<noteq> [] \<longrightarrow> length (orEmpty (sound_shifts st1)) \<le> 30)
      \<and> (filter isExtinctEvent evs = [] \<longrightarrow> orEmpty (extinct st1) = orEmpty (extinct st))
      \<and> (filter isShiftEvent evs = []
            \<longrightarrow> orEmpty (sound_shifts st1) = orEmpty (sound_shifts st)))"
proof (intro conjI)
  show "evolveRun srt nows st rs = Some (evss, st', rs')
      \<and> length (orEmpty (extinct st)) \<le> 50 \<and> length (orEmpty (sound_shifts st)) \<le> 30
      \<and> length (orEmpty (events st)) \<le> 200 \<longrightarrow>
      length (orEmpty (extinct st')) \<le> 50 \<and> length (orEmpty (sound_shifts st')) \<le> 30
      \<and> length (orEmpty (events st')) \<le> 200"
    using evolveRun_frame[of srt nows st rs evss st' rs'] by blast
  show "initState None rs0 = Some (st, rs) \<and> evolveRun srt nows st rs = Some (evss, st', rs') \<longrightarrow>
      length (orEmpty (extinct st')) \<le> 50 \<and> length (orEmpty (sound_shifts st')) \<le> 30
      \<and> length (orEmpty (events st')) \<le> 200"
    using evolveRun_frame[of srt nows st rs evss st' rs'] initState_fresh_rings[of rs0 st rs]
    by simp
  show "evolveRun srt nows st rs = Some (evss, st', rs') \<and> nows \<noteq> [] \<longrightarrow>
      length (orEmpty (events st')) \<le> 200"
    using evolveRun_events[of srt nows st rs evss st' rs'] by blast
  show "evolveStep srt now st rs = Some (evs, st1, rs1) \<longrightarrow>
      length (orEmpty (events st1)) \<le> 200
      \<and> (filter isExtinctEvent evs \<noteq> [] \<longrightarrow> length (orEmpty (extinct st1)) \<le> 50)
      \<and> (filter isShiftEvent evs \<noteq> [] \<longrightarrow> length (orEmpty (sound_shifts st1)) \<le> 30)
      \<and> (filter isExtinctEvent evs = [] \<longrightarrow> orEmpty (extinct st1) = orEmpty (extinct st))
      \<and> (filter isShiftEvent evs = []
            \<longrightarrow> orEmpty (sound_shifts st1) = orEmpty (sound_shifts st))"
    using evolveStep_rings[of srt now st rs evs st1 rs1] by blast
qed

theorem ring_bounds_witness:
  "(\<exists>evs st1 rs1. evolveStep insertionSorter clockA fullRingState dieDraws = Some (evs, st1, rs1)
      \<and> length (orEmpty (extinct fullRingState)) = 50
      \<and> filter isExtinctEvent evs = [Extinct 6 ''ka'' ''water'']
      \<and> last (orEmpty (extinct st1)) = extinctRecord 6 (''ka'', kaData)
      \<and> length (orEmpty (extinct st1)) \<le> 50 \<and> length (orEmpty (events st1)) \<le> 200)
   \<and> (\<exists>evs st1 rs1. evolveStep insertionSorter clockA fullShiftState haiDraws
         = Some (evs, st1, rs1)
      \<and> length (orEmpty (sound_shifts fullShiftState)) = 30
      \<and> filter isShiftEvent evs = [Shift 10 ''hai'' ''wai'' ''wind'']
      \<and> length (orEmpty (sound_shifts st1)) \<le> 30)
   \<and> (\<exists>evss st' rs'. evolveRun insertionSorter [clockA] fullRingState dieDraws
         = Some (evss, st', rs')
      \<and> length (orEmpty (extinct st')) \<le> 50 \<and> length (orEmpty (sound_shifts st')) \<le> 30
      \<and> length (orEmpty (events st')) \<le> 200)
   \<and> (\<exists>st rs evss st' rs'. initState None (seedDraws @ quietDraws) = Some (st, rs)
      \<and> evolveRun insertionSorter [clockA] st rs = Some (evss, st', rs')
      \<and> length (orEmpty (extinct st')) \<le> 50 \<and> length (orEmpty (sound_shifts st')) \<le> 30
      \<and> length (orEmpty (events st')) \<le> 200)
   \<and> (\<exists>evss st' rs'. evolveRun insertionSorter [clockA, clockB] bigState (quietDraws @ quietDraws)
         = Some (evss, st', rs')
      \<and> length (orEmpty (events st')) \<le> 200)"
proof -
  from full_ring_example(1) obtain evs st1 rs1
    where r: "evolveStep insertionSorter clockA fullRingState dieDraws = Some (evs, st1, rs1)"
      and e: "evs = [Birth 6 ''kai'' ''old'' (Some ''quality''), Extinct 6 ''ka'' ''water'']"
      and l: "last (orEmpty (extinct st1)) = extinctRecord 6 (''ka'', kaData)"
    by (auto simp: extinctRecord_def kaData_def)
  have f: "length (orEmpty (extinct fullRingState)) = 50"
    "length (orEmpty (sound_shifts fullRingState)) \<le> 30"
    "length (orEmpty (events fullRingState)) \<le> 200"
    by (simp_all add: fullRingState_def kaState_def)
  from e have x: "filter isExtinctEvent evs = [Extinct 6 ''ka'' ''water'']" by simp
  from ring_bounds[where srt = insertionSorter and now = clockA and st = fullRingState
      and rs = dieDraws and evs = evs and ?st1.0 = st1 and ?rs1.0 = rs1,
      THEN conjunct2, THEN conjunct2, THEN conjunct2] r x
  have "length (orEmpty (extinct st1)) \<le> 50 \<and> length (orEmpty (events st1)) \<le> 200"
    by simp
  with r f(1) x l
  have 1: "\<exists>evs st1 rs1. evolveStep insertionSorter clockA fullRingState dieDraws
         = Some (evs, st1, rs1)
      \<and> length (orEmpty (extinct fullRingState)) = 50
      \<and> filter isExtinctEvent evs = [Extinct 6 ''ka'' ''water'']
      \<and> last (orEmpty (extinct st1)) = extinctRecord 6 (''ka'', kaData)
      \<and> length (orEmpty (extinct st1)) \<le> 50 \<and> length (orEmpty (events st1)) \<le> 200"
    by blast
  from full_ring_example(2) obtain evs2 st2 rs2
    where r2: "evolveStep insertionSorter clockA fullShiftState haiDraws = Some (evs2, st2, rs2)"
      and e2: "evs2 = [Shift 10 ''hai'' ''wai'' ''wind'']"
    by auto
  from e2 have x2: "filter isShiftEvent evs2 = [Shift 10 ''hai'' ''wai'' ''wind'']" by simp
  from ring_bounds[where srt = insertionSorter and now = clockA and st = fullShiftState
      and rs = haiDraws and evs = evs2 and ?st1.0 = st2 and ?rs1.0 = rs2,
      THEN conjunct2, THEN conjunct2, THEN conjunct2] r2 x2
  have "length (orEmpty (sound_shifts st2)) \<le> 30"
    by simp
  moreover have "length (orEmpty (sound_shifts fullShiftState)) = 30"
    by (simp add: fullShiftState_def)
  ultimately
  have 2: "\<exists>evs st1 rs1. evolveStep insertionSorter clockA fullShiftState haiDraws
         = Some (evs, st1, rs1)
      \<and> length (orEmpty (sound_shifts fullShiftState)) = 30
      \<and> filter isShiftEvent evs = [Shift 10 ''hai'' ''wai'' ''wind'']
      \<and> length (orEmpty (sound_shifts st1)) \<le> 30"
    using r2 x2 by blast
  from r have run: "evolveRun insertionSorter [clockA] fullRingState dieDraws
      = Some ([evs], st1, rs1)"
    by simp
  from ring_bounds[where srt = insertionSorter and nows = "[clockA]" and st = fullRingState
      and rs = dieDraws and evss = "[evs]" and st' = st1 and rs' = rs1, THEN conjunct1] run f
  have "length (orEmpty (extinct st1)) \<le> 50 \<and> length (orEmpty (sound_shifts st1)) \<le> 30
      \<and> length (orEmpty (events st1)) \<le> 200"
    by simp
  with run
  have 3: "\<exists>evss st' rs'. evolveRun insertionSorter [clockA] fullRingState dieDraws
         = Some (evss, st', rs')
      \<and> length (orEmpty (extinct st')) \<le> 50 \<and> length (orEmpty (sound_shifts st')) \<le> 30
      \<and> length (orEmpty (events st')) \<le> 200"
    by blast
  from fresh_run_example obtain st rs evss4 st4 rs4
    where i: "initState None (seedDraws @ quietDraws) = Some (st, rs)"
      and v: "evolveRun insertionSorter [clockA] st rs = Some (evss4, st4, rs4)"
    by (auto split: Option.bind_splits)
  from ring_bounds[where srt = insertionSorter and nows = "[clockA]"
      and ?rs0.0 = "seedDraws @ quietDraws" and st = st and rs = rs and evss = evss4
      and st' = st4 and rs' = rs4, THEN conjunct2, THEN conjunct1] i v
  have "length (orEmpty (extinct st4)) \<le> 50 \<and> length (orEmpty (sound_shifts st4)) \<le> 30
      \<and> length (orEmpty (events st4)) \<le> 200"
    by simp
  with i v
  have 4: "\<exists>st rs evss st' rs'. initState None (seedDraws @ quietDraws) = Some (st, rs)
      \<and> evolveRun insertionSorter [clockA] st rs = Some (evss, st', rs')
      \<and> length (orEmpty (extinct st')) \<le> 50 \<and> length (orEmpty (sound_shifts st')) \<le> 30
      \<and> length (orEmpty (events st')) \<le> 200"
    by blast
  have n: "[clockA, clockB] \<noteq> []" by simp
  note ring_bounds[where srt = insertionSorter and nows = "[clockA, clockB]" and st = bigState
      and rs = "quietDraws @ quietDraws" and evss = "[[], []]"
      and st' = "bigState\<lparr>words := Some [(''ka'', kaData\<lparr>uses := 2, fitness := 0.15\<rparr>)],
                          generation := Some 7\<rparr>"
      and rs' = "[]",
      THEN conjunct2, THEN conjunct2, THEN conjunct1, THEN mp, OF conjI[OF big_example(1) n]]
  with big_example(1)
  have 5: "\<exists>evss st' rs'. evolveRun insertionSorter [clockA, clockB] bigState
           (quietDraws @ quietDraws) = Some (evss, st', rs')
      \<and> length (orEmpty (events st')) \<le> 200"
    by blast
  from 1 2 3 4 5 show ?thesis by (intro conjI)
qed

text \<open>
  The claim C5 bounds the extinct list by 50 after any number of calls. A snapshot with
  60 extinct records is taken as the state at startup as it is (and \<^verbatim>\<open>syncFromPi\<close>
  takes the list of the Pi when it is the longer one), and the state keeps all 60
  through two calls in which no word goes extinct: the ring is trimmed only inside the
  branch that pushes a record.
\<close>

theorem ring_bounds_counterexample:
  "initState (Some bigState) (quietDraws @ quietDraws) = Some (bigState, quietDraws @ quietDraws)
   \<and> evolveRun insertionSorter [clockA, clockB] bigState (quietDraws @ quietDraws)
     = Some ([[], []],
             bigState\<lparr>words := Some [(''ka'', kaData\<lparr>uses := 2, fitness := 0.15\<rparr>)],
                       generation := Some 7\<rparr>, [])
   \<and> length (orEmpty (extinct
         (bigState\<lparr>words := Some [(''ka'', kaData\<lparr>uses := 2, fitness := 0.15\<rparr>)],
                   generation := Some 7\<rparr>))) = 60"
proof (intro conjI)
  show "initState (Some bigState) (quietDraws @ quietDraws)
      = Some (bigState, quietDraws @ quietDraws)"
    by code_simp
  show "evolveRun insertionSorter [clockA, clockB] bigState (quietDraws @ quietDraws)
     = Some ([[], []],
             bigState\<lparr>words := Some [(''ka'', kaData\<lparr>uses := 2, fitness := 0.15\<rparr>)],
                       generation := Some 7\<rparr>, [])"
    by (rule big_example(1))
  show "length (orEmpty (extinct
         (bigState\<lparr>words := Some [(''ka'', kaData\<lparr>uses := 2, fitness := 0.15\<rparr>)],
                   generation := Some 7\<rparr>))) = 60"
    by (simp add: bigState_def)
qed

end
